theory Spec2Isabelle
  imports Complex_Main
begin

section \<open>Numbers, arrays and errors\<close>

text \<open>
  The units of \<^verbatim>\<open>qsdsan/sanunits/_abstract.py\<close> and \<^verbatim>\<open>qsdsan/sanunits/_pumping.py\<close>
  compute on numpy arrays of floats.  Here a float is a \<^typ>\<open>real\<close>: arithmetic is
  exact, there is no rounding and no overflow.  A one-dimensional array is a list, a
  two-dimensional array is the list of its rows (all of one length).

  Every Python exception the modelled code can raise is a value of \<open>error\<close>.  numpy does
  not raise on a floating division by zero: it stores \<open>inf\<close> or \<open>nan\<close> and emits a
  RuntimeWarning.  Such values are not reals, so the model stops there with
  \<open>DivisionByZero\<close>; it is the one outcome below that is not a Python exception.
\<close>

datatype error =
    IndexError              \<comment> \<open>index out of bounds\<close>
  | TypeError               \<comment> \<open>item assignment on \<open>None\<close>\<close>
  | AttributeError          \<comment> \<open>attribute read before it was ever assigned\<close>
  | BroadcastError          \<comment> \<open>ValueError: operands could not be broadcast together\<close>
  | MatmulError             \<comment> \<open>ValueError: matmul operands have mismatching dimensions\<close>
  | StateShapeError         \<comment> \<open>ValueError: state must be a 1D array of length n+1\<close>
  | EmptySplitKeys          \<comment> \<open>ValueError: split_keys cannot be empty\<close>
  | SplitKeysNotIterable    \<comment> \<open>ValueError: split_keys must be an iterable\<close>
  | DuplicateComponent      \<comment> \<open>ValueError: the component appears more than once in split_keys\<close>
  | SplitKeysSizeChanged    \<comment> \<open>ValueError: size of split_keys cannot be changed after initiation\<close>
  | UndefinedChemical       \<comment> \<open>lookup of an ID that is not a registered component\<close>
  | DivisionByZero          \<comment> \<open>a float division with divisor 0 (numpy: inf/nan and a warning)\<close>

definition bind :: "error + 'a \<Rightarrow> ('a \<Rightarrow> error + 'b) \<Rightarrow> error + 'b" where
  "bind m f = (case m of Inl e \<Rightarrow> Inl e | Inr x \<Rightarrow> f x)"

text \<open>\<open>a.sum()\<close>\<close>
definition np_sum :: "real list \<Rightarrow> real" where
  "np_sum a = sum_list a"

text \<open>\<open>M[0]\<close>, the first row\<close>
definition row0 :: "'a list \<Rightarrow> error + 'a" where
  "row0 M = (case M of [] \<Rightarrow> Inl IndexError | r # _ \<Rightarrow> Inr r)"

text \<open>\<open>a[-1]\<close>\<close>
definition last_item :: "'a list \<Rightarrow> error + 'a" where
  "last_item a = (if a = [] then Inl IndexError else Inr (last a))"

text \<open>\<open>M[:, -1]\<close>: the last column; an array without columns has none.\<close>
definition last_col :: "real list list \<Rightarrow> error + real list" where
  "last_col M = (if list_ex (\<lambda>r. r = []) M then Inl IndexError else Inr (map last M))"

text \<open>\<open>M[:, :-1]\<close>: all columns but the last.\<close>
definition init_cols :: "real list list \<Rightarrow> real list list" where
  "init_cols M = map butlast M"

text \<open>\<open>M[0, -1]\<close>\<close>
definition item_0_last :: "real list list \<Rightarrow> error + real" where
  "item_0_last M = bind (row0 M) last_item"

text \<open>\<open>M[0, :-1]\<close>\<close>
definition slice_0_init :: "real list list \<Rightarrow> error + real list" where
  "slice_0_init M = bind (row0 M) (\<lambda>r. Inr (butlast r))"

text \<open>The dot product of two vectors of one length.\<close>
definition dot :: "real list \<Rightarrow> real list \<Rightarrow> real" where
  "dot v w = sum_list (map2 (*) v w)"

text \<open>
  \<open>v @ M\<close> for a vector \<open>v\<close> of shape \<open>(k,)\<close> and a matrix \<open>M\<close> of shape \<open>(k', n)\<close>: entry
  \<open>j\<close> is the dot product of \<open>v\<close> with column \<open>j\<close>; numpy raises ValueError unless
  \<open>k = k'\<close>.  The number of columns is read off the first row, so the matrix has at least
  one row.
\<close>
definition np_matmul :: "real list \<Rightarrow> real list list \<Rightarrow> error + real list" where
  "np_matmul v M =
     (if length v \<noteq> length M then Inl MatmulError
      else Inr (map (\<lambda>j. dot v (map (\<lambda>r. r ! j) M)) [0 ..< length (hd M)]))"

text \<open>
  An elementwise binary operation on two one-dimensional arrays, with numpy's
  broadcasting: equal lengths, or one operand of length 1 stretched to the other.
\<close>
definition np_binop :: "(real \<Rightarrow> real \<Rightarrow> real) \<Rightarrow> real list \<Rightarrow> real list \<Rightarrow> error + real list" where
  "np_binop f a b =
     (if length a = length b then Inr (map2 f a b)
      else if length a = 1 then Inr (map (f (hd a)) b)
      else if length b = 1 then Inr (map (\<lambda>x. f x (hd b)) a)
      else Inl BroadcastError)"

text \<open>\<open>q * a\<close> for a scalar \<open>q\<close>\<close>
definition scalar_mul :: "real \<Rightarrow> real list \<Rightarrow> real list" where
  "scalar_mul q a = map (\<lambda>x. q * x) a"

text \<open>\<open>x / q\<close> for scalars\<close>
definition fdiv :: "real \<Rightarrow> real \<Rightarrow> error + real" where
  "fdiv x q = (if q = 0 then Inl DivisionByZero else Inr (x / q))"

text \<open>
  \<open>a / q\<close> for an array \<open>a\<close> and a scalar \<open>q\<close>: one float division per element, so an
  empty array divides nothing.
\<close>
definition np_div :: "real list \<Rightarrow> real \<Rightarrow> error + real list" where
  "np_div a q = (if q = 0 \<and> a \<noteq> [] then Inl DivisionByZero else Inr (map (\<lambda>x. x / q) a))"

text \<open>\<open>d[-1] = x\<close> on an attribute that may be \<open>None\<close>\<close>
definition set_last :: "real list option \<Rightarrow> real \<Rightarrow> error + real list" where
  "set_last d x =
     (case d of None \<Rightarrow> Inl TypeError
      | Some a \<Rightarrow> if a = [] then Inl IndexError else Inr (butlast a @ [x]))"

text \<open>
  \<open>d[:-1] = v\<close>: the slice has \<open>length d - 1\<close> entries (none for an empty array); \<open>v\<close>
  must have that length or length 1 (broadcast).
\<close>
definition set_init :: "real list \<Rightarrow> real list \<Rightarrow> error + real list" where
  "set_init d v =
     (let k = length d - 1 in
      if length v = k then Inr (v @ drop k d)
      else if length v = 1 then Inr (replicate k (hd v) @ drop k d)
      else Inl BroadcastError)"

section \<open>Streams and units\<close>

text \<open>
  A stream (the class is outside these files) carries the dynamic state and its
  derivative, written by the producing unit, and the steady-state mass flows \<open>imass\<close>
  indexed by component ID.
\<close>

record stream =
  s_state :: "real list option"
  s_dstate :: "real list option"
  imass :: "string \<Rightarrow> real"

text \<open>
  The attributes shared by the dynamic units: the component IDs of the registry, the
  streams, \<open>_state\<close> and \<open>_dstate\<close> (\<open>None\<close> until assigned).
\<close>

record san_unit =
  components :: "string list"
  ins :: "stream list"
  outs :: "stream list"
  state :: "real list option"
  dstate :: "real list option"

text \<open>
  \<open>reset_cache\<close> is the same method in Mixer, Splitter and Pump (HydraulicDelay
  inherits Pump's): \<open>self._state = None\<close>, then \<open>s.empty()\<close> for every output.  The stream
  method \<open>empty\<close> is outside these files and is a parameter.
\<close>
definition reset_cache :: "(stream \<Rightarrow> stream) \<Rightarrow> 'a san_unit_scheme \<Rightarrow> 'a san_unit_scheme" where
  "reset_cache empty_stream u = u\<lparr>state := None, outs := map empty_stream (outs u)\<rparr>"

text \<open>\<open>self._outs[0]._state = arr\<close>\<close>
definition set_out_state :: "nat \<Rightarrow> real list \<Rightarrow> stream list \<Rightarrow> error + stream list" where
  "set_out_state i arr os =
     (if i < length os then Inr (os[i := (os ! i)\<lparr>s_state := Some arr\<rparr>]) else Inl IndexError)"

text \<open>\<open>self._outs[i]._dstate = d\<close>; the right-hand side is whatever the attribute holds.\<close>
definition set_out_dstate :: "nat \<Rightarrow> real list option \<Rightarrow> stream list \<Rightarrow> error + stream list" where
  "set_out_dstate i d os =
     (if i < length os then Inr (os[i := (os ! i)\<lparr>s_dstate := d\<rparr>]) else Inl IndexError)"

section \<open>Mixer\<close>

text \<open>
  \<open>Mixer._init_state\<close>.  \<open>QCs\<close> is the result of \<open>self._collect_ins_state()\<close> (defined
  outside these files): one row per input, the concentrations followed by the flow.
\<close>
definition Mixer_init_state :: "real list list \<Rightarrow> 'a san_unit_scheme \<Rightarrow> error + 'a san_unit_scheme" where
  "Mixer_init_state QCs u =
     bind (if length QCs \<le> 1 then row0 QCs
           else bind (last_col QCs) (\<lambda>Qs.
                let Cs = init_cols QCs in
                bind (np_matmul Qs Cs) (\<lambda>QsCs.
                bind (np_div QsCs (np_sum Qs)) (\<lambda>C.
                Inr (C @ [np_sum Qs])))))
       (\<lambda>st. Inr (u\<lparr>state := Some st, dstate := Some (map (\<lambda>x. x * 0) st)\<rparr>))"

text \<open>\<open>Mixer._update_state\<close>: \<open>self._state = self._outs[0]._state = arr\<close>\<close>
definition Mixer_update_state :: "real list \<Rightarrow> 'a san_unit_scheme \<Rightarrow> error + 'a san_unit_scheme" where
  "Mixer_update_state arr u =
     bind (set_out_state 0 arr (outs u)) (\<lambda>os. Inr (u\<lparr>state := Some arr, outs := os\<rparr>))"

text \<open>\<open>Mixer._update_dstate\<close>: \<open>self._outs[0]._dstate = self._dstate\<close>\<close>
definition Mixer_update_dstate :: "'a san_unit_scheme \<Rightarrow> error + 'a san_unit_scheme" where
  "Mixer_update_dstate u =
     bind (set_out_dstate 0 (dstate u) (outs u)) (\<lambda>os. Inr (u\<lparr>outs := os\<rparr>))"

text \<open>
  The closure \<open>dy_dt\<close> built by \<open>Mixer._compile_ODE\<close>; \<open>n_ins\<close> is the captured
  \<open>len(self.ins)\<close>.  The arguments \<open>t\<close> and \<open>QC\<close> are not read.
\<close>
definition Mixer_dy_dt ::
  "nat \<Rightarrow> real list list \<Rightarrow> real list list \<Rightarrow> 'a san_unit_scheme \<Rightarrow> error + 'a san_unit_scheme" where
  "Mixer_dy_dt n_ins QC_ins dQC_ins u =
     (if n_ins > 1 then
        bind (last_col QC_ins) (\<lambda>Q_ins.
        let C_ins = init_cols QC_ins in
        bind (last_col dQC_ins) (\<lambda>dQ_ins.
        let dC_ins = init_cols dQC_ins;
            Q = np_sum Q_ins in
        bind (np_matmul Q_ins C_ins) (\<lambda>QC.
        bind (np_div QC Q) (\<lambda>C.
        let Q_dot = np_sum dQ_ins in
        bind (np_matmul dQ_ins C_ins) (\<lambda>a.
        bind (np_matmul Q_ins dC_ins) (\<lambda>b.
        bind (np_binop (+) a b) (\<lambda>ab.
        bind (np_binop (-) ab (scalar_mul Q_dot C)) (\<lambda>abc.
        bind (np_div abc Q) (\<lambda>C_dot.
        bind (set_last (dstate u) Q_dot) (\<lambda>d1.
        bind (set_init d1 C_dot) (\<lambda>d2.
        Mixer_update_dstate (u\<lparr>dstate := Some d2\<rparr>))))))))))))
      else
        bind (row0 dQC_ins) (\<lambda>r. Mixer_update_dstate (u\<lparr>dstate := Some r\<rparr>)))"

definition Mixer_compile_ODE ::
  "'a san_unit_scheme \<Rightarrow> real list list \<Rightarrow> real list list \<Rightarrow> 'a san_unit_scheme \<Rightarrow> error + 'a san_unit_scheme" where
  "Mixer_compile_ODE u = Mixer_dy_dt (length (ins u))"

section \<open>Pump\<close>

text \<open>\<open>Pump._init_state\<close> (also \<open>Splitter._init_state\<close> starts this way)\<close>
definition Pump_init_state :: "real list list \<Rightarrow> 'a san_unit_scheme \<Rightarrow> error + 'a san_unit_scheme" where
  "Pump_init_state QCs u =
     bind (row0 QCs) (\<lambda>st. Inr (u\<lparr>state := Some st, dstate := Some (map (\<lambda>x. x * 0) st)\<rparr>))"

text \<open>\<open>Pump._update_state\<close>: \<open>self._state = self._outs[0]._state = arr\<close>\<close>
definition Pump_update_state :: "real list \<Rightarrow> 'a san_unit_scheme \<Rightarrow> error + 'a san_unit_scheme" where
  "Pump_update_state arr u =
     bind (set_out_state 0 arr (outs u)) (\<lambda>os. Inr (u\<lparr>state := Some arr, outs := os\<rparr>))"

text \<open>\<open>Pump._update_dstate\<close>: \<open>self._outs[0]._dstate = self._dstate\<close>\<close>
definition Pump_update_dstate :: "'a san_unit_scheme \<Rightarrow> error + 'a san_unit_scheme" where
  "Pump_update_dstate u =
     bind (set_out_dstate 0 (dstate u) (outs u)) (\<lambda>os. Inr (u\<lparr>outs := os\<rparr>))"

text \<open>The closure \<open>dy_dt\<close> of \<open>Pump._compile_ODE\<close>\<close>
definition Pump_dy_dt :: "real list list \<Rightarrow> real list \<Rightarrow> real list list \<Rightarrow> 'a san_unit_scheme \<Rightarrow> error + 'a san_unit_scheme" where
  "Pump_dy_dt QC_ins QC dQC_ins u =
     bind (row0 dQC_ins) (\<lambda>r. Pump_update_dstate (u\<lparr>dstate := Some r\<rparr>))"

text \<open>
  The setter of the property \<open>state\<close>, the same code in Splitter and Pump (Mixer has
  none).  \<open>np.asarray(QCs)\<close> is an array of any dimension: its shape and its entries.
\<close>
record ndarray =
  shape :: "nat list"
  entries :: "real list"

definition set_state :: "ndarray \<Rightarrow> 'a san_unit_scheme \<Rightarrow> error + 'a san_unit_scheme" where
  "set_state QCs u =
     (if shape QCs \<noteq> [length (components u) + 1] then Inl StateShapeError
      else Inr (u\<lparr>state := Some (entries QCs)\<rparr>))"

section \<open>Splitter\<close>

text \<open>
  \<open>split\<close> is the array behind the property \<open>split\<close> (one fraction per component); the two
  scale vectors do not exist before \<open>_init_state\<close>.
\<close>
record splitter = san_unit +
  split :: "real list"
  split_out0_state :: "real list option"
  split_out1_state :: "real list option"

text \<open>\<open>self.components.index(ID)\<close>\<close>
fun index_of :: "string list \<Rightarrow> string \<Rightarrow> error + nat" where
  "index_of [] x = Inl UndefinedChemical"
| "index_of (y # ys) x = (if y = x then Inr 0 else bind (index_of ys x) (\<lambda>i. Inr (Suc i)))"

text \<open>\<open>s[i]\<close>\<close>
definition item :: "real list \<Rightarrow> nat \<Rightarrow> error + real" where
  "item s i = (if i < length s then Inr (s ! i) else Inl IndexError)"

text \<open>\<open>Splitter._init_state\<close>\<close>
definition Splitter_init_state :: "real list list \<Rightarrow> 'a splitter_scheme \<Rightarrow> error + 'a splitter_scheme" where
  "Splitter_init_state QCs u =
     bind (row0 QCs) (\<lambda>st.
     let s = split u in
     bind (index_of (components u) ''H2O'') (\<lambda>i.
     bind (item s i) (\<lambda>s_flow.
     bind (np_div s s_flow) (\<lambda>r0.
     bind (np_div (map (\<lambda>x. 1 - x) s) (1 - s_flow)) (\<lambda>r1.
     Inr (u\<lparr>state := Some st, dstate := Some (map (\<lambda>x. x * 0) st),
            split_out0_state := Some (r0 @ [s_flow]),
            split_out1_state := Some (r1 @ [1 - s_flow])\<rparr>))))))"

text \<open>\<open>self._split_outN_state * arr\<close>\<close>
definition scale :: "real list option \<Rightarrow> real list \<Rightarrow> error + real list" where
  "scale sc arr = (case sc of None \<Rightarrow> Inl AttributeError | Some v \<Rightarrow> np_binop (*) v arr)"

text \<open>\<open>Splitter._update_state\<close>\<close>
definition Splitter_update_state :: "real list \<Rightarrow> 'a splitter_scheme \<Rightarrow> error + 'a splitter_scheme" where
  "Splitter_update_state arr u =
     bind (scale (split_out0_state u) arr) (\<lambda>a0.
     bind (set_out_state 0 a0 (outs u)) (\<lambda>os0.
     bind (scale (split_out1_state u) arr) (\<lambda>a1.
     bind (set_out_state 1 a1 os0) (\<lambda>os1.
     Inr (u\<lparr>state := Some arr, outs := os1\<rparr>)))))"

text \<open>\<open>Splitter._update_dstate\<close>; multiplying an array by \<open>None\<close> is a TypeError.\<close>
definition Splitter_update_dstate :: "'a splitter_scheme \<Rightarrow> error + 'a splitter_scheme" where
  "Splitter_update_dstate u =
     (case dstate u of None \<Rightarrow>
        (case split_out0_state u of None \<Rightarrow> Inl AttributeError | Some _ \<Rightarrow> Inl TypeError)
      | Some arr \<Rightarrow>
        bind (scale (split_out0_state u) arr) (\<lambda>a0.
        bind (set_out_dstate 0 (Some a0) (outs u)) (\<lambda>os0.
        bind (scale (split_out1_state u) arr) (\<lambda>a1.
        bind (set_out_dstate 1 (Some a1) os0) (\<lambda>os1.
        Inr (u\<lparr>outs := os1\<rparr>))))))"

text \<open>The closure \<open>dy_dt\<close> of \<open>Splitter._compile_ODE\<close>\<close>
definition Splitter_dy_dt :: "real list list \<Rightarrow> real list \<Rightarrow> real list list \<Rightarrow> 'a splitter_scheme \<Rightarrow> error + 'a splitter_scheme" where
  "Splitter_dy_dt QC_ins QC dQC_ins u =
     bind (row0 dQC_ins) (\<lambda>r. Splitter_update_dstate (u\<lparr>dstate := Some r\<rparr>))"

section \<open>HydraulicDelay\<close>

record hydraulic_delay = san_unit +
  t_delay :: real
  concs :: "real list option"

text \<open>
  \<open>HydraulicDelay.__init__\<close>: \<open>base\<close> is the unit as \<open>SanUnit.__init__\<close> (outside these
  files) leaves it; the argument \<open>t_delay\<close> is optional.
\<close>
definition HydraulicDelay_init :: "san_unit \<Rightarrow> real option \<Rightarrow> hydraulic_delay" where
  "HydraulicDelay_init base t =
     \<lparr>components = components base, ins = ins base, outs = outs base,
      state = state base, dstate = dstate base,
      t_delay = (case t of None \<Rightarrow> 1 / 10000 | Some T \<Rightarrow> T), concs = None\<rparr>"

text \<open>\<open>HydraulicDelay._init_state\<close>\<close>
definition HydraulicDelay_init_state ::
  "real list list \<Rightarrow> 'a hydraulic_delay_scheme \<Rightarrow> error + 'a hydraulic_delay_scheme" where
  "HydraulicDelay_init_state QCs u =
     bind (row0 QCs) (\<lambda>st.
     case concs u of
       None \<Rightarrow> Inr (u\<lparr>state := Some st\<rparr>)
     | Some cs \<Rightarrow> bind (set_init st cs) (\<lambda>st'. Inr (u\<lparr>state := Some st'\<rparr>)))"

text \<open>
  The closure \<open>dy_dt\<close> of \<open>HydraulicDelay._compile_ODE\<close>; \<open>T\<close> is the captured
  \<open>self.t_delay\<close>.  In an assignment Python evaluates the right-hand side first.
\<close>
definition HydraulicDelay_dy_dt ::
  "real \<Rightarrow> real list list \<Rightarrow> real list \<Rightarrow> real list list \<Rightarrow> 'a san_unit_scheme \<Rightarrow> error + 'a san_unit_scheme" where
  "HydraulicDelay_dy_dt T QC_ins QC dQC_ins u =
     bind (item_0_last QC_ins) (\<lambda>Q_in.
     bind (last_item QC) (\<lambda>Q.
     bind (slice_0_init QC_ins) (\<lambda>C_in.
     let C = butlast QC in
     bind (item_0_last dQC_ins) (\<lambda>dQ_in.
     if dQ_in = 0 then
       bind (set_last (dstate u) 0) (\<lambda>d1.
       bind (np_binop (-) (scalar_mul Q_in C_in) (scalar_mul Q C)) (\<lambda>num.
       bind (np_div num (Q * T)) (\<lambda>v.
       bind (set_init d1 v) (\<lambda>d2.
       Pump_update_dstate (u\<lparr>dstate := Some d2\<rparr>)))))
     else
       bind (fdiv (Q_in - Q) T) (\<lambda>x.
       bind (set_last (dstate u) x) (\<lambda>d1.
       bind (fdiv Q_in Q) (\<lambda>r.
       bind (np_binop (-) C_in C) (\<lambda>diff.
       bind (np_div (scalar_mul r diff) T) (\<lambda>v.
       bind (set_init d1 v) (\<lambda>d2.
       Pump_update_dstate (u\<lparr>dstate := Some d2\<rparr>)))))))))))"

definition HydraulicDelay_compile_ODE ::
  "'a hydraulic_delay_scheme \<Rightarrow> real list list \<Rightarrow> real list \<Rightarrow> real list list
     \<Rightarrow> 'b san_unit_scheme \<Rightarrow> error + 'b san_unit_scheme" where
  "HydraulicDelay_compile_ODE u = HydraulicDelay_dy_dt (t_delay u)"

section \<open>ComponentSplitter\<close>

text \<open>
  An item of \<open>split_keys\<close> is a string, an iterable of component IDs, or an object that
  is neither.  \<open>split_keys\<close> itself is a string or a sized collection of items.
\<close>
datatype key = Str string | Group "string list" | NotIterable

datatype split_keys = KeyStr string | Keys "key list"

record component_splitter = san_unit +
  N_outs :: nat
  split_keys_attr :: split_keys

text \<open>\<open>not split_keys\<close>: the empty string and the empty collection are false.\<close>
fun falsy :: "split_keys \<Rightarrow> bool" where
  "falsy (KeyStr s) = (s = [])"
| "falsy (Keys ks) = (ks = [])"

text \<open>\<open>len(i)\<close>\<close>
fun len_keys :: "split_keys \<Rightarrow> nat" where
  "len_keys (KeyStr s) = length s"
| "len_keys (Keys ks) = length ks"

text \<open>Iterating over \<open>split_keys\<close>: a string yields its characters, each a string.\<close>
fun items :: "split_keys \<Rightarrow> key list" where
  "items (KeyStr s) = map (\<lambda>c. Str [c]) s"
| "items (Keys ks) = ks"

definition new_stream :: stream where
  "new_stream = \<lparr>s_state = None, s_dstate = None, imass = (\<lambda>_. 0)\<rparr>"

text \<open>
  \<open>ComponentSplitter.__init__\<close> with the default \<open>outs=()\<close>.

  Modelled from the spec: \<open>SanUnit.__init__\<close> is outside these files; it creates the
  output streams, one per split key in order and a final, always-present output, that
  is \<open>_N_outs\<close> streams, and leaves \<open>_state\<close> and \<open>_dstate\<close> unset.
\<close>
definition ComponentSplitter_init ::
  "string list \<Rightarrow> stream list \<Rightarrow> split_keys \<Rightarrow> error + component_splitter" where
  "ComponentSplitter_init cmps ins_arg sk =
     (if falsy sk then Inl EmptySplitKeys
      else
        let n = (case sk of KeyStr _ \<Rightarrow> 2 | Keys ks \<Rightarrow> length ks + 1) in
        Inr \<lparr>components = cmps, ins = ins_arg, outs = replicate n new_stream,
             state = None, dstate = None, N_outs = n, split_keys_attr = sk\<rparr>)"

text \<open>The setter of the property \<open>split_keys\<close>\<close>
definition set_split_keys :: "split_keys \<Rightarrow> 'a component_splitter_scheme \<Rightarrow> error + 'a component_splitter_scheme" where
  "set_split_keys i u =
     (let i' = (case i of KeyStr s \<Rightarrow> Keys [Str s] | Keys ks \<Rightarrow> Keys ks) in
      if len_keys i' \<noteq> length (outs u) then Inl SplitKeysSizeChanged
      else Inr (u\<lparr>split_keys_attr := i'\<rparr>))"

text \<open>
  \<open>last.mix_from(self.ins)\<close>, a method of the stream class (outside these files).

  Modelled from the spec: it combines all inputs into the stream, as if fully merged:
  the mass flow of every component becomes the sum over the inputs.
\<close>
definition mix_from :: "stream \<Rightarrow> stream list \<Rightarrow> stream" where
  "mix_from s others = s\<lparr>imass := (\<lambda>c. sum_list (map (\<lambda>t. imass t c) others))\<rparr>"

text \<open>\<open>os[i].imass[cmp] = m\<close> for an index in range\<close>
definition set_imass :: "nat \<Rightarrow> string \<Rightarrow> real \<Rightarrow> stream list \<Rightarrow> stream list" where
  "set_imass i cmp m os = os[i := (os ! i)\<lparr>imass := (imass (os ! i))(cmp := m)\<rparr>]"

text \<open>
  The inner loop \<open>for cmp in cmps\<close> of \<open>ComponentSplitter._run\<close>.  \<open>last\<close> is the object
  \<open>self.outs[-1]\<close>, so it is read from the current list of outputs.  The right-hand side
  \<open>last.imass[cmp]\<close> is evaluated before the target \<open>self.outs[num]\<close>.  An exception
  leaves the streams as they are at that point, so the outputs are returned with it.
\<close>
fun move_cmps ::
  "string list \<Rightarrow> nat \<Rightarrow> string list \<Rightarrow> stream list \<Rightarrow> string list
     \<Rightarrow> error option \<times> stream list \<times> string list" where
  "move_cmps registry num [] os splitted = (None, os, splitted)"
| "move_cmps registry num (cmp # cmps) os splitted =
     (if \<not> List.member registry cmp then (Some UndefinedChemical, os, splitted)
      else if \<not> num < length os then (Some IndexError, os, splitted)
      else
        let os1 = set_imass num cmp (imass (last os) cmp) os;
            os2 = set_imass (length os1 - 1) cmp 0 os1
        in if List.member splitted cmp then (Some DuplicateComponent, os2, splitted)
           else move_cmps registry num cmps os2 (splitted @ [cmp]))"

text \<open>The outer loop \<open>for num, cmps in enumerate(self.split_keys)\<close>\<close>
fun run_keys ::
  "string list \<Rightarrow> nat \<Rightarrow> key list \<Rightarrow> stream list \<Rightarrow> string list \<Rightarrow> error option \<times> stream list" where
  "run_keys registry num [] os splitted = (None, os)"
| "run_keys registry num (NotIterable # ks) os splitted = (Some SplitKeysNotIterable, os)"
| "run_keys registry num (Str c # ks) os splitted =
     (case move_cmps registry num [c] os splitted of
        (Some e, os', _) \<Rightarrow> (Some e, os')
      | (None, os', splitted') \<Rightarrow> run_keys registry (Suc num) ks os' splitted')"
| "run_keys registry num (Group g # ks) os splitted =
     (case move_cmps registry num g os splitted of
        (Some e, os', _) \<Rightarrow> (Some e, os')
      | (None, os', splitted') \<Rightarrow> run_keys registry (Suc num) ks os' splitted')"

text \<open>
  \<open>ComponentSplitter._run\<close>: the exception raised, if any, and the unit as the call
  leaves it.
\<close>
definition ComponentSplitter_run ::
  "'a component_splitter_scheme \<Rightarrow> error option \<times> 'a component_splitter_scheme" where
  "ComponentSplitter_run u =
     (if outs u = [] then (Some IndexError, u)
      else
        let os0 = (outs u)[length (outs u) - 1 := mix_from (last (outs u)) (ins u)] in
        case run_keys (components u) 0 (items (split_keys_attr u)) os0 [] of
          (r, os') \<Rightarrow> (r, u\<lparr>outs := os'\<rparr>))"

section \<open>Well-formed inputs and example units\<close>

text \<open>A two-dimensional array of shape \<open>(k, m)\<close>\<close>
definition is_matrix :: "nat \<Rightarrow> nat \<Rightarrow> real list list \<Rightarrow> bool" where
  "is_matrix k m M = (length M = k \<and> list_all (\<lambda>r. length r = m) M)"

text \<open>
  A unit with two components, two inputs and one output, as it is before any
  \<open>_init_state\<close>: this is how \<open>SanUnit.__init__\<close> leaves a Mixer.
\<close>
definition unit0 :: san_unit where
  "unit0 = \<lparr>components = [''S'', ''H2O''], ins = [new_stream, new_stream], outs = [new_stream],
            state = None, dstate = None\<rparr>"

text \<open>A splitter over the same two components with two outputs.\<close>
definition splitter0 :: "real list \<Rightarrow> splitter" where
  "splitter0 s = \<lparr>components = [''S'', ''H2O''], ins = [new_stream],
            outs = [new_stream, new_stream], state = None, dstate = None,
            split = s, split_out0_state = None, split_out1_state = None\<rparr>"

text \<open>A stream whose mass flows are given by an association list.\<close>
definition stream_of :: "(string \<times> real) list \<Rightarrow> stream" where
  "stream_of fl = \<lparr>s_state = None, s_dstate = None,
                   imass = (\<lambda>c. case map_of fl c of None \<Rightarrow> 0 | Some m \<Rightarrow> m)\<rparr>"

text \<open>A unit with one input and one output, before any \<open>_init_state\<close>.\<close>
definition pump0 :: san_unit where
  "pump0 = \<lparr>components = [''S'', ''H2O''], ins = [new_stream], outs = [new_stream],
            state = None, dstate = None\<rparr>"

text \<open>A HydraulicDelay with time constant \<open>T\<close> that has a Derivative Vector.\<close>
definition delay0 :: "real \<Rightarrow> hydraulic_delay" where
  "delay0 T = HydraulicDelay_init (pump0\<lparr>dstate := Some [0, 0, 0]\<rparr>) (Some T)"

text \<open>An instance of the stream method \<open>empty\<close>: it sets every mass flow to zero.\<close>
definition empty0 :: "stream \<Rightarrow> stream" where
  "empty0 s = s\<lparr>imass := (\<lambda>_. 0)\<rparr>"

text \<open>The component IDs an item of \<open>split_keys\<close> names.\<close>
fun ids_of :: "key \<Rightarrow> string list" where
  "ids_of (Str c) = [c]"
| "ids_of (Group g) = g"
| "ids_of NotIterable = []"

text \<open>
  The component IDs that the loops of \<open>_run\<close> handle before they stop: the IDs of the
  keys in order, up to and including the first one that was handled before (\<open>seen\<close>
  holds the IDs handled so far); all of them when no ID is repeated.
\<close>
fun processed :: "string list \<Rightarrow> string list \<Rightarrow> string list" where
  "processed seen [] = []"
| "processed seen (c # cs) = (if c \<in> set seen then [c] else c # processed (seen @ [c]) cs)"

section \<open>Basic facts about the array operations\<close>

lemma bind_Inr [simp]: "bind (Inr x) f = f x"
  by (simp add: bind_def)

lemma bind_Inl [simp]: "bind (Inl e) f = Inl e"
  by (simp add: bind_def)

lemma dot_sum: "length v = length w \<Longrightarrow> dot v w = (\<Sum>i<length v. v ! i * w ! i)"
  unfolding dot_def
  by (simp add: sum_list_sum_nth atLeast0LessThan)

lemma np_sum_nth: "np_sum (map (\<lambda>r. r ! n) M) = (\<Sum>i<length M. M ! i ! n)"
  by (simp add: np_sum_def sum_list_sum_nth atLeast0LessThan)

lemma is_matrix_row: "is_matrix k m M \<Longrightarrow> i < k \<Longrightarrow> length (M ! i) = m"
  by (auto simp: is_matrix_def list_all_length)

lemma last_col_matrix:
  assumes "is_matrix k (Suc n) M"
  shows "last_col M = Inr (map (\<lambda>r. r ! n) M)"
proof -
  have rows: "\<forall>r\<in>set M. length r = Suc n"
    using assms by (simp add: is_matrix_def list_all_iff)
  then have a: "\<not> list_ex (\<lambda>r. r = []) M"
    by (auto simp: list_ex_iff)
  have "map last M = map (\<lambda>r. r ! n) M"
  proof (rule map_cong[OF refl])
    fix r assume "r \<in> set M"
    then have "length r = Suc n" using rows by blast
    then show "last r = r ! n"
      by (metis diff_Suc_1 last_conv_nth length_0_conv nat.distinct(1))
  qed
  with a show ?thesis by (simp add: last_col_def)
qed

lemma matmul_matrix:
  assumes "is_matrix k (Suc n) M" "0 < k" "length v = k"
  shows "np_matmul v (init_cols M) = Inr (map (\<lambda>j. \<Sum>i<k. v ! i * M ! i ! j) [0..<n])"
proof -
  have len: "length M = k" and rows: "\<And>i. i < k \<Longrightarrow> length (M ! i) = Suc n"
    using assms by (auto simp: is_matrix_def list_all_length)
  have "M \<noteq> []" using len assms(2) by auto
  then have h: "length (hd (init_cols M)) = n"
    using rows[of 0] assms(2) by (simp add: init_cols_def hd_map hd_conv_nth)
  have "dot v (map (\<lambda>r. r ! j) (init_cols M)) = (\<Sum>i<k. v ! i * M ! i ! j)" if "j < n" for j
  proof -
    have "dot v (map (\<lambda>r. r ! j) (init_cols M))
          = (\<Sum>i<k. v ! i * (map (\<lambda>r. r ! j) (init_cols M)) ! i)"
      using dot_sum[of v "map (\<lambda>r. r ! j) (init_cols M)"] assms(3) len
      by (simp add: init_cols_def)
    also have "\<dots> = (\<Sum>i<k. v ! i * M ! i ! j)"
      using that rows len by (intro sum.cong) (auto simp: init_cols_def nth_butlast)
    finally show ?thesis .
  qed
  then show ?thesis using assms(3) len h by (simp add: np_matmul_def init_cols_def)
qed

section \<open>Mixer: initial state\<close>

text \<open>
  Claim C9, as stated, at two inputs that both carry no flow: the total flow is \<open>0\<close>, the
  flow-weighted average divides \<open>0\<close> by \<open>0\<close>, and numpy leaves \<open>[nan, nan, 0]\<close> as the
  state and, multiplied by \<open>0\<close>, as the derivative, which is not a zero vector.
\<close>
theorem Mixer_init_state_counterexample:
  "Mixer_init_state [[1, 2, 0], [3, 4, 0]] unit0 = Inl DivisionByZero"
  by (simp add: Mixer_init_state_def last_col_def init_cols_def np_matmul_def np_div_def
      np_sum_def Let_def)

text \<open>
  Claim C9, amended.  \<open>Mixer._init_state\<close> on the collected input states \<open>QCs\<close>, a
  \<open>k \<times> (n+1)\<close> array with \<open>k \<ge> 1\<close> inputs: with exactly one input the state is that row
  verbatim; with several inputs whose total flow is not zero the last entry is
  \<open>Q = \<Sum> Q\<^sub>i\<close> and entry \<open>j < n\<close> is the flow-weighted average \<open>(\<Sum> Q\<^sub>i C\<^sub>i\<^sub>j) / Q\<close>.  In
  these cases the derivative is the zero vector of the same length \<open>n+1\<close>.  The witness
  is the spec's example: \<open>Q1 = 10\<close>, \<open>C1 = [100, 0]\<close>, \<open>Q2 = 5\<close>, \<open>C2 = [0, 200]\<close> give
  \<open>Q = 15\<close> and \<open>C = [66.667, 66.667]\<close> within \<open>0.001\<close>.
\<close>
theorem Mixer_init_state_spec:
  assumes M: "is_matrix k (Suc n) QCs" and k: "0 < k"
    and Q: "k = 1 \<or> (\<Sum>i<k. QCs ! i ! n) \<noteq> 0"
  shows "\<exists>st. Mixer_init_state QCs u
            = Inr (u\<lparr>state := Some st, dstate := Some (replicate (Suc n) 0)\<rparr>)
          \<and> length st = Suc n
          \<and> (if k = 1 then st = QCs ! 0
              else st ! n = (\<Sum>i<k. QCs ! i ! n)
                 \<and> list_all (\<lambda>j. st ! j = (\<Sum>i<k. QCs ! i ! n * QCs ! i ! j) / (\<Sum>i<k. QCs ! i ! n))
                      [0..<n])"
proof (cases "k = 1")
  case True
  then obtain r where r: "QCs = [r]" "length r = Suc n"
    using M by (cases QCs) (auto simp: is_matrix_def)
  have "map (\<lambda>x. x * 0) r = replicate (Suc n) (0::real)"
    using r(2) by (simp add: map_replicate_const)
  then show ?thesis using True r by (simp add: Mixer_init_state_def row0_def)
next
  case False
  define Qt where "Qt = (\<Sum>i<k. QCs ! i ! n)"
  define C where "C = map (\<lambda>j. (\<Sum>i<k. QCs ! i ! n * QCs ! i ! j) / Qt) [0..<n]"
  have len: "length QCs = k" using M by (simp add: is_matrix_def)
  have Qt: "Qt \<noteq> 0" using Q False by (simp add: Qt_def)
  have lc: "last_col QCs = Inr (map (\<lambda>r. r ! n) QCs)" by (rule last_col_matrix[OF M])
  have mm: "np_matmul (map (\<lambda>r. r ! n) QCs) (init_cols QCs)
            = Inr (map (\<lambda>j. \<Sum>i<k. QCs ! i ! n * QCs ! i ! j) [0..<n])"
    using matmul_matrix[OF M k, of "map (\<lambda>r. r ! n) QCs"] len by simp
  have s: "np_sum (map (\<lambda>r. r ! n) QCs) = Qt" by (simp add: np_sum_nth len Qt_def)
  have dv: "np_div (map (\<lambda>j. \<Sum>i<k. QCs ! i ! n * QCs ! i ! j) [0..<n]) Qt = Inr C"
    using Qt by (simp add: np_div_def C_def)
  have z: "map (\<lambda>x. x * 0) (C @ [Qt]) = replicate (Suc n) (0::real)"
    by (simp add: C_def map_replicate_const replicate_append_same)
  have run: "Mixer_init_state QCs u
     = Inr (u\<lparr>state := Some (C @ [Qt]), dstate := Some (replicate (Suc n) 0)\<rparr>)"
    using False k len z unfolding Mixer_init_state_def lc
    by (simp add: Let_def mm s dv)
  have lC: "length C = n" by (simp add: C_def)
  have "(C @ [Qt]) ! n = Qt" using lC by (simp add: nth_append)
  moreover have "list_all (\<lambda>j. (C @ [Qt]) ! j = (\<Sum>i<k. QCs ! i ! n * QCs ! i ! j) / Qt) [0..<n]"
    by (simp add: list_all_iff nth_append lC) (simp add: C_def)
  ultimately show ?thesis using run lC False unfolding Qt_def[symmetric] by auto
qed

theorem Mixer_init_state_spec_witness:
  "is_matrix 2 3 [[100, 0, 10], [0, 200, 5]]
   \<and> (\<exists>st. Mixer_init_state [[100, 0, 10], [0, 200, 5]] unit0
            = Inr (unit0\<lparr>state := Some st, dstate := Some [0, 0, 0]\<rparr>)
        \<and> st ! 2 = 15 \<and> \<bar>st ! 0 - 66.667\<bar> < 0.001 \<and> \<bar>st ! 1 - 66.667\<bar> < 0.001)"
proof -
  let ?M = "[[100, 0, 10], [0, 200, 5::real]]"
  have m: "is_matrix 2 (Suc 2) ?M" by (simp add: is_matrix_def)
  have q: "(2::nat) = 1 \<or> (\<Sum>i<2. ?M ! i ! 2) \<noteq> 0" by (simp add: numeral_2_eq_2)
  obtain st where st: "Mixer_init_state ?M unit0
            = Inr (unit0\<lparr>state := Some st, dstate := Some (replicate (Suc 2) 0)\<rparr>)"
     "st ! 2 = (\<Sum>i<2. ?M ! i ! 2)"
     "list_all (\<lambda>j. st ! j = (\<Sum>i<2. ?M ! i ! 2 * ?M ! i ! j) / (\<Sum>i<2. ?M ! i ! 2)) [0..<2]"
    using Mixer_init_state_spec[OF m _ q, of unit0] by auto
  have u: "[0..<2] = [0, Suc 0]" by (simp add: upt_rec)
  have "st ! 2 = 15" using st(2) by (simp add: numeral_2_eq_2)
  moreover have "st ! 0 = 1000 / 15" "st ! 1 = 1000 / 15"
    using st(3) unfolding u by (simp_all add: numeral_2_eq_2)
  moreover have "replicate (Suc 2) (0::real) = [0, 0, 0]" by (simp add: numeral_2_eq_2)
  ultimately show ?thesis using st(1) m by (intro conjI exI[of _ st]) simp_all
qed

section \<open>Mixer: the derivative function\<close>

lemma np_binop_same: "length a = length b \<Longrightarrow> np_binop f a b = Inr (map2 f a b)"
  by (simp add: np_binop_def)

lemma map2_upt:
  "map2 f (map g [0..<n]) (map h [0..<n]) = map (\<lambda>j. f (g j) (h j)) [0..<n]"
  by (rule nth_equalityI) simp_all

lemma list3: "length xs = 3 \<Longrightarrow> xs = [xs ! 0, xs ! 1, xs ! 2]"
  by (rule nth_equalityI) (auto simp: less_Suc_eq numeral_3_eq_3 numeral_2_eq_2)

text \<open>
  Claim C1.  The compiled ODE of a Mixer, evaluated on the upstream states \<open>QC_ins\<close> and
  derivatives \<open>dQC_ins\<close> (one row per input, \<open>n\<close> concentrations followed by the flow).
  With exactly one input the Derivative Vector becomes the upstream derivative row
  unchanged.  With more than one input (total flow \<open>Q = \<Sum> Q\<^sub>i\<close> not zero, and a
  Derivative Vector of length \<open>n+1\<close> to write into) its last entry becomes
  \<open>dQ = \<Sum> dQ\<^sub>i\<close> and entry \<open>j < n\<close> becomes
  \<open>(\<Sum> dQ\<^sub>i C\<^sub>i\<^sub>j + \<Sum> Q\<^sub>i dC\<^sub>i\<^sub>j - dQ C\<^sub>j) / Q\<close> with \<open>C\<^sub>j = (\<Sum> Q\<^sub>i C\<^sub>i\<^sub>j) / Q\<close>, the
  quotient-rule formula itself.  In both cases the same vector is stored in the
  derivative slot of the single output.
\<close>
theorem Mixer_dy_dt_spec:
  assumes QC: "is_matrix (length (ins u)) (Suc n) QC_ins"
    and dQC: "is_matrix (length (ins u)) (Suc n) dQC_ins"
    and out: "outs u \<noteq> []"
    and c: "length (ins u) = 1 \<or>
            (1 < length (ins u) \<and> (\<Sum>i<length (ins u). QC_ins ! i ! n) \<noteq> 0
              \<and> (\<exists>d. dstate u = Some d \<and> length d = Suc n))"
  shows "\<exists>dd. Mixer_compile_ODE u QC_ins dQC_ins u
            = Inr (u\<lparr>dstate := Some dd, outs := (outs u)[0 := (outs u ! 0)\<lparr>s_dstate := Some dd\<rparr>]\<rparr>)
          \<and> (if length (ins u) = 1 then dd = dQC_ins ! 0
              else length dd = Suc n
                 \<and> dd ! n = (\<Sum>i<length (ins u). dQC_ins ! i ! n)
                 \<and> list_all (\<lambda>j. dd ! j =
                      ((\<Sum>i<length (ins u). dQC_ins ! i ! n * QC_ins ! i ! j)
                       + (\<Sum>i<length (ins u). QC_ins ! i ! n * dQC_ins ! i ! j)
                       - (\<Sum>i<length (ins u). dQC_ins ! i ! n)
                         * ((\<Sum>i<length (ins u). QC_ins ! i ! n * QC_ins ! i ! j)
                            / (\<Sum>i<length (ins u). QC_ins ! i ! n)))
                      / (\<Sum>i<length (ins u). QC_ins ! i ! n)) [0..<n])"
proof (cases "length (ins u) = 1")
  case True
  then obtain r where r: "dQC_ins = [r]"
    using dQC by (cases dQC_ins) (auto simp: is_matrix_def)
  show ?thesis using True r out
    by (simp add: Mixer_compile_ODE_def Mixer_dy_dt_def row0_def Mixer_update_dstate_def
        set_out_dstate_def)
next
  case False
  define k where "k = length (ins u)"
  from False c obtain d where k1: "1 < k" and Q0: "(\<Sum>i<k. QC_ins ! i ! n) \<noteq> 0"
    and d: "dstate u = Some d" "length d = Suc n"
    unfolding k_def by auto
  have kpos: "0 < k" using k1 by simp
  note QC' = QC[folded k_def] and dQC' = dQC[folded k_def]
  define Q where "Q = (\<Sum>i<k. QC_ins ! i ! n)"
  define Q_dot where "Q_dot = (\<Sum>i<k. dQC_ins ! i ! n)"
  define QCj where "QCj = (\<lambda>j. \<Sum>i<k. QC_ins ! i ! n * QC_ins ! i ! j)"
  define A where "A = (\<lambda>j. \<Sum>i<k. dQC_ins ! i ! n * QC_ins ! i ! j)"
  define B where "B = (\<lambda>j. \<Sum>i<k. QC_ins ! i ! n * dQC_ins ! i ! j)"
  define C_dot where "C_dot = map (\<lambda>j. (A j + B j - Q_dot * (QCj j / Q)) / Q) [0..<n]"
  have len: "length QC_ins = k" "length dQC_ins = k"
    using QC' dQC' by (simp_all add: is_matrix_def)
  have lc1: "last_col QC_ins = Inr (map (\<lambda>r. r ! n) QC_ins)" by (rule last_col_matrix[OF QC'])
  have lc2: "last_col dQC_ins = Inr (map (\<lambda>r. r ! n) dQC_ins)" by (rule last_col_matrix[OF dQC'])
  have s1: "np_sum (map (\<lambda>r. r ! n) QC_ins) = Q" by (simp add: np_sum_nth len Q_def)
  have s2: "np_sum (map (\<lambda>r. r ! n) dQC_ins) = Q_dot" by (simp add: np_sum_nth len Q_dot_def)
  have m1: "np_matmul (map (\<lambda>r. r ! n) QC_ins) (init_cols QC_ins) = Inr (map QCj [0..<n])"
    using matmul_matrix[OF QC' kpos, of "map (\<lambda>r. r ! n) QC_ins"] len by (simp add: QCj_def)
  have m2: "np_matmul (map (\<lambda>r. r ! n) dQC_ins) (init_cols QC_ins) = Inr (map A [0..<n])"
    using matmul_matrix[OF QC' kpos, of "map (\<lambda>r. r ! n) dQC_ins"] len by (simp add: A_def)
  have m3: "np_matmul (map (\<lambda>r. r ! n) QC_ins) (init_cols dQC_ins) = Inr (map B [0..<n])"
    using matmul_matrix[OF dQC' kpos, of "map (\<lambda>r. r ! n) QC_ins"] len by (simp add: B_def)
  define Cv where "Cv = map (\<lambda>j. QCj j / Q) [0..<n]"
  define N where "N = map (\<lambda>j. A j + B j - Q_dot * (QCj j / Q)) [0..<n]"
  have dv1: "np_div (map QCj [0..<n]) Q = Inr Cv"
    using Q0 by (simp add: np_div_def Q_def Cv_def)
  have ad: "np_binop (+) (map A [0..<n]) (map B [0..<n]) = Inr (map (\<lambda>j. A j + B j) [0..<n])"
    by (simp add: np_binop_same map2_upt)
  have sb: "np_binop (-) (map (\<lambda>j. A j + B j) [0..<n]) (scalar_mul Q_dot Cv) = Inr N"
    by (simp add: np_binop_same scalar_mul_def map2_upt Cv_def N_def)
  have dv2: "np_div N Q = Inr C_dot"
    using Q0 by (simp add: np_div_def Q_def C_dot_def N_def)
  have lC: "length C_dot = n" by (simp add: C_dot_def)
  have si: "bind (set_last (dstate u) Q_dot) (\<lambda>d1. bind (set_init d1 C_dot) f) = f (C_dot @ [Q_dot])" for f :: "real list \<Rightarrow> error + 'a san_unit_scheme"
  proof -
    have d0: "d \<noteq> []" using d(2) by auto
    have "drop n (butlast d @ [Q_dot]) = [Q_dot]" using d(2) by simp
    then show ?thesis using d d0 lC by (simp add: set_last_def set_init_def Let_def)
  qed
  have run: "Mixer_compile_ODE u QC_ins dQC_ins u
     = Inr (u\<lparr>dstate := Some (C_dot @ [Q_dot]),
             outs := (outs u)[0 := (outs u ! 0)\<lparr>s_dstate := Some (C_dot @ [Q_dot])\<rparr>]\<rparr>)"
    unfolding Mixer_compile_ODE_def Mixer_dy_dt_def lc1 lc2
    using k1 out
    by (simp add: Let_def k_def[symmetric] s1 s2 m1 m2 m3 dv1 ad sb dv2 si
        Mixer_update_dstate_def set_out_dstate_def)
  have e1: "(C_dot @ [Q_dot]) ! n = Q_dot" using lC by (simp add: nth_append)
  have e2: "list_all (\<lambda>j. (C_dot @ [Q_dot]) ! j = (A j + B j - Q_dot * (QCj j / Q)) / Q) [0..<n]"
    by (simp add: list_all_iff nth_append lC) (simp add: C_dot_def)
  have e3: "length (C_dot @ [Q_dot]) = Suc n" using lC by simp
  have "\<exists>dd. Mixer_compile_ODE u QC_ins dQC_ins u
            = Inr (u\<lparr>dstate := Some dd, outs := (outs u)[0 := (outs u ! 0)\<lparr>s_dstate := Some dd\<rparr>]\<rparr>)
          \<and> length dd = Suc n \<and> dd ! n = Q_dot
          \<and> list_all (\<lambda>j. dd ! j = (A j + B j - Q_dot * (QCj j / Q)) / Q) [0..<n]"
    using run e1 e2 e3 by blast
  then show ?thesis
    using False unfolding Q_def Q_dot_def A_def B_def QCj_def k_def by simp
qed

theorem Mixer_dy_dt_spec_witness:
  "is_matrix 2 3 [[100, 0, 10], [0, 200, 5]] \<and> is_matrix 2 3 [[1, 2, 3], [4, 5, 6]]
   \<and> Mixer_compile_ODE (unit0\<lparr>dstate := Some [0, 0, 0]\<rparr>) [[100, 0, 10], [0, 200, 5]] [[1, 2, 3], [4, 5, 6]]
        (unit0\<lparr>dstate := Some [0, 0, 0]\<rparr>)
      = Inr (unit0\<lparr>dstate := Some [- 18, 43, 9],
                    outs := [new_stream\<lparr>s_dstate := Some [- 18, 43, 9]\<rparr>]\<rparr>)"
proof -
  let ?QC = "[[100, 0, 10], [0, 200, 5::real]]"
  let ?dQC = "[[1, 2, 3], [4, 5, 6::real]]"
  let ?u = "unit0\<lparr>dstate := Some [0, 0, 0]\<rparr>"
  have l: "length (ins ?u) = 2" by (simp add: unit0_def)
  have m1: "is_matrix (length (ins ?u)) (Suc 2) ?QC" unfolding l by (simp add: is_matrix_def)
  have m2: "is_matrix (length (ins ?u)) (Suc 2) ?dQC" unfolding l by (simp add: is_matrix_def)
  have o: "outs ?u \<noteq> []" by (simp add: unit0_def)
  have c: "length (ins ?u) = 1 \<or>
            (1 < length (ins ?u) \<and> (\<Sum>i<length (ins ?u). ?QC ! i ! 2) \<noteq> 0
              \<and> (\<exists>d. dstate ?u = Some d \<and> length d = Suc 2))"
    unfolding l by (simp add: numeral_2_eq_2)
  have u: "[0..<2] = [0, Suc 0]" by (simp add: upt_rec)
  obtain dd where run: "Mixer_compile_ODE ?u ?QC ?dQC ?u
            = Inr (?u\<lparr>dstate := Some dd, outs := (outs ?u)[0 := (outs ?u ! 0)\<lparr>s_dstate := Some dd\<rparr>]\<rparr>)"
     and len: "length dd = Suc 2" and e2: "dd ! 2 = 9" and e0: "dd ! 0 = - 18" and e1: "dd ! 1 = 43"
    using Mixer_dy_dt_spec[OF m1 m2 o c] unfolding l u
    by (auto simp: numeral_2_eq_2)
  have "dd = [- 18, 43, 9]" using list3[of dd] len e0 e1 e2 by simp
  then show ?thesis using run m1 m2 unfolding l by (simp add: unit0_def)
qed

section \<open>HydraulicDelay: the derivative function\<close>

lemma set_last_init_append:
  assumes "length d = Suc (length v)"
  shows "bind (set_last (Some d) x) (\<lambda>d1. bind (set_init d1 v) f) = f (v @ [x])"
proof -
  have d0: "d \<noteq> []" using assms by auto
  have "drop (length v) (butlast d @ [x]) = [x]" using assms by simp
  then show ?thesis using d0 assms by (simp add: set_last_def set_init_def Let_def)
qed

text \<open>
  The two-branch rule of the Delay Node, on a node that has a Derivative Vector of
  the state's length, with time constant \<open>T = t_delay\<close>, upstream state \<open>(C_in, Q_in)\<close>,
  own state \<open>(C, Q)\<close> and upstream flow derivative \<open>dQ_in\<close>, neither \<open>Q\<close> nor \<open>T\<close> being
  zero.  If \<open>dQ_in = 0\<close> the flow entry becomes \<open>0\<close> and each concentration entry
  \<open>(Q_in C_in - Q C) / (Q T)\<close>; otherwise the flow entry becomes \<open>(Q_in - Q) / T\<close> and each
  concentration entry \<open>(Q_in / Q) (C_in - C) / T\<close>.  The result is stored in the
  derivative slot of the output.
\<close>
lemma HydraulicDelay_dy_dt_rule:
  assumes ins: "QC_ins = (C_in @ [Q_in]) # others"
    and own: "QC = C @ [Q]"
    and dins: "dQC_ins = (dC_in @ [dQ_in]) # dothers"
    and len: "length C_in = length C"
    and d: "dstate u = Some d" "length d = Suc (length C)"
    and out: "outs u \<noteq> []"
    and nz: "Q \<noteq> 0" "t_delay u \<noteq> 0"
  shows "HydraulicDelay_compile_ODE u QC_ins QC dQC_ins u
         = (let dd = (if dQ_in = 0
                      then map2 (\<lambda>c_in c. (Q_in * c_in - Q * c) / (Q * t_delay u)) C_in C @ [0]
                      else map2 (\<lambda>c_in c. Q_in / Q * (c_in - c) / t_delay u) C_in C
                           @ [(Q_in - Q) / t_delay u])
            in Inr (u\<lparr>dstate := Some dd,
                      outs := (outs u)[0 := (outs u ! 0)\<lparr>s_dstate := Some dd\<rparr>]\<rparr>))"
proof -
  define T where "T = t_delay u"
  have T0: "T \<noteq> 0" using nz by (simp add: T_def)
  have a: "item_0_last QC_ins = Inr Q_in" "slice_0_init QC_ins = Inr C_in"
    "last_item QC = Inr Q" "butlast QC = C" "item_0_last dQC_ins = Inr dQ_in"
    using ins own dins by (simp_all add: item_0_last_def slice_0_init_def row0_def last_item_def)
  show ?thesis
  proof (cases "dQ_in = 0")
    case True
    define v where "v = map2 (\<lambda>c_in c. (Q_in * c_in - Q * c) / (Q * T)) C_in C"
    define num where "num = map2 (-) (scalar_mul Q_in C_in) (scalar_mul Q C)"
    have b: "np_binop (-) (scalar_mul Q_in C_in) (scalar_mul Q C) = Inr num"
      using len by (simp add: np_binop_def scalar_mul_def num_def)
    have "map (\<lambda>x. x / (Q * T)) num = v"
      using len unfolding num_def v_def scalar_mul_def
      by (intro nth_equalityI) simp_all
    then have c: "np_div num (Q * T) = Inr v" using nz T0 by (simp add: np_div_def)
    have lv: "length d = Suc (length v)" using d(2) len by (simp add: v_def)
    have "HydraulicDelay_dy_dt T QC_ins QC dQC_ins u
          = Inr (u\<lparr>dstate := Some (v @ [0]),
                   outs := (outs u)[0 := (outs u ! 0)\<lparr>s_dstate := Some (v @ [0])\<rparr>]\<rparr>)"
      unfolding HydraulicDelay_dy_dt_def a using True out
      by (simp add: Let_def d(1) b c set_last_init_append[OF lv]
          Pump_update_dstate_def set_out_dstate_def)
    then show ?thesis using True
      by (simp add: HydraulicDelay_compile_ODE_def T_def[symmetric] v_def Let_def)
  next
    case False
    define v where "v = map2 (\<lambda>c_in c. Q_in / Q * (c_in - c) / T) C_in C"
    define x where "x = (Q_in - Q) / T"
    define r where "r = Q_in / Q"
    define df where "df = map2 (-) C_in C"
    have f1: "fdiv (Q_in - Q) T = Inr x" "fdiv Q_in Q = Inr r"
      using nz T0 by (simp_all add: fdiv_def x_def r_def)
    have b: "np_binop (-) C_in C = Inr df" using len by (simp add: np_binop_def df_def)
    have "map (\<lambda>y. y / T) (scalar_mul r df) = v"
      using len unfolding df_def v_def scalar_mul_def r_def
      by (intro nth_equalityI) simp_all
    then have c: "np_div (scalar_mul r df) T = Inr v" using T0 by (simp add: np_div_def)
    have lv: "length d = Suc (length v)" using d(2) len by (simp add: v_def)
    have "HydraulicDelay_dy_dt T QC_ins QC dQC_ins u
          = Inr (u\<lparr>dstate := Some (v @ [x]),
                   outs := (outs u)[0 := (outs u ! 0)\<lparr>s_dstate := Some (v @ [x])\<rparr>]\<rparr>)"
      unfolding HydraulicDelay_dy_dt_def a using False out
      by (simp add: Let_def d(1) f1 b c set_last_init_append[OF lv]
          Pump_update_dstate_def set_out_dstate_def)
    then show ?thesis using False
      by (simp add: HydraulicDelay_compile_ODE_def T_def[symmetric] v_def x_def Let_def)
  qed
qed

lemma HydraulicDelay_dy_dt_rule_example:
  "HydraulicDelay_compile_ODE (delay0 2) [[100, 0, 10]] [50, 20, 5] [[0, 0, 0]] (delay0 2)
     = Inr ((delay0 2)\<lparr>dstate := Some [75, - 10, 0],
                        outs := [new_stream\<lparr>s_dstate := Some [75, - 10, 0]\<rparr>]\<rparr>)
   \<and> HydraulicDelay_compile_ODE (delay0 2) [[100, 0, 10]] [50, 20, 5] [[0, 0, 1]] (delay0 2)
     = Inr ((delay0 2)\<lparr>dstate := Some [50, - 20, 5 / 2],
                        outs := [new_stream\<lparr>s_dstate := Some [50, - 20, 5 / 2]\<rparr>]\<rparr>)"
proof -
  have u: "dstate (delay0 2) = Some [0, 0, 0]" "outs (delay0 2) = [new_stream]" "t_delay (delay0 2) = 2"
    by (simp_all add: delay0_def HydraulicDelay_init_def pump0_def)
  have 1: "HydraulicDelay_compile_ODE (delay0 2) [[100, 0, 10]] [50, 20, 5] [[0, 0, 0]] (delay0 2)
     = Inr ((delay0 2)\<lparr>dstate := Some [75, - 10, 0],
                        outs := [new_stream\<lparr>s_dstate := Some [75, - 10, 0]\<rparr>]\<rparr>)"
    using HydraulicDelay_dy_dt_rule[of "[[100, 0, 10]]" "[100, 0]" 10 "[]" "[50, 20, 5]" "[50, 20]" 5
        "[[0, 0, 0]]" "[0, 0]" 0 "[]" "delay0 2" "[0, 0, 0]"]
    by (simp add: u Let_def)
  have 2: "HydraulicDelay_compile_ODE (delay0 2) [[100, 0, 10]] [50, 20, 5] [[0, 0, 1]] (delay0 2)
     = Inr ((delay0 2)\<lparr>dstate := Some [50, - 20, 5 / 2],
                        outs := [new_stream\<lparr>s_dstate := Some [50, - 20, 5 / 2]\<rparr>]\<rparr>)"
    using HydraulicDelay_dy_dt_rule[of "[[100, 0, 10]]" "[100, 0]" 10 "[]" "[50, 20, 5]" "[50, 20]" 5
        "[[0, 0, 1]]" "[0, 0]" 1 "[]" "delay0 2" "[0, 0, 0]"]
    by (simp add: u Let_def)
  from 1 2 show ?thesis by simp
qed

text \<open>
  Claim C8, at a Delay Node as its constructor and its \<open>_init_state\<close> leave it: the
  node has no Derivative Vector, and the compiled ODE, which assigns into it in
  place, fails with a TypeError in both branches instead of setting it by the
  two-branch rule.
\<close>
theorem HydraulicDelay_dy_dt_no_dstate:
  "\<exists>u. HydraulicDelay_init_state [[100, 0, 10]] (HydraulicDelay_init pump0 (Some 2)) = Inr u
       \<and> state u = Some [100, 0, 10] \<and> dstate u = None \<and> t_delay u = 2
       \<and> HydraulicDelay_compile_ODE u [[100, 0, 10]] [50, 20, 5] [[0, 0, 0]] u = Inl TypeError
       \<and> HydraulicDelay_compile_ODE u [[100, 0, 10]] [50, 20, 5] [[0, 0, 1]] u = Inl TypeError"
  by (simp add: HydraulicDelay_init_state_def HydraulicDelay_init_def pump0_def row0_def
      HydraulicDelay_compile_ODE_def HydraulicDelay_dy_dt_def item_0_last_def last_item_def
      slice_0_init_def set_last_def fdiv_def Let_def)

text \<open>
  Claim C10, as stated, at nodes as the constructor and \<open>_init_state\<close> leave them: with
  \<open>t_delay = 0\<close> and a steady inflow (\<open>dQ_in = 0\<close>), and with \<open>Q = 0\<close>, \<open>t_delay = 2\<close> and
  \<open>dQ_in = 1\<close>, the evaluation stops with a TypeError at the assignment into the
  undefined Derivative Vector, before any division by zero.
\<close>
theorem HydraulicDelay_division_by_zero_counterexample:
  "\<exists>u. HydraulicDelay_init_state [[100, 0, 10]] (HydraulicDelay_init pump0 (Some 0)) = Inr u
       \<and> t_delay u = 0
       \<and> HydraulicDelay_compile_ODE u [[100, 0, 10]] [50, 20, 5] [[0, 0, 0]] u = Inl TypeError
       \<and> (\<exists>v. HydraulicDelay_init_state [[100, 0, 10]] (HydraulicDelay_init pump0 (Some 2)) = Inr v
             \<and> HydraulicDelay_compile_ODE v [[100, 0, 10]] [50, 20, 0] [[0, 0, 1]] v = Inl TypeError)"
  by (simp add: HydraulicDelay_init_state_def HydraulicDelay_init_def pump0_def row0_def
      HydraulicDelay_compile_ODE_def HydraulicDelay_dy_dt_def item_0_last_def last_item_def
      slice_0_init_def set_last_def fdiv_def Let_def)

text \<open>
  Claim C10, amended.  \<open>HydraulicDelay.__init__\<close> stores any \<open>t_delay\<close> it is given, with
  no check of its sign, and \<open>1e-4\<close> when none is given.  The compiled ODE divides by
  \<open>t_delay\<close> and by the own flow \<open>Q\<close> with no guard.  For \<open>t_delay = 0\<close> or \<open>Q = 0\<close>, on
  arguments that hold an upstream row, an own state and an upstream derivative row:
  when \<open>t_delay = 0\<close> and \<open>dQ_in \<noteq> 0\<close> every evaluation performs a division by zero, at
  \<open>(Q_in - Q) / T\<close>, whatever the node holds; in the other cases the evaluation performs
  a division by zero whenever the node has a non-empty Derivative Vector to assign
  into and the states have the same positive number of concentrations, and stops
  with a TypeError before dividing when the Derivative Vector is undefined.
\<close>
theorem HydraulicDelay_division_by_zero:
  assumes ins: "QC_ins = (C_in @ [Q_in]) # others"
    and own: "QC = C @ [Q]"
    and dins: "dQC_ins = (dC_in @ [dQ_in]) # dothers"
    and z: "T = 0 \<or> Q = 0"
  shows "t_delay (HydraulicDelay_init base None) = 1 / 10000
       \<and> t_delay (HydraulicDelay_init base (Some T)) = T
       \<and> (let res = HydraulicDelay_compile_ODE (HydraulicDelay_init base (Some T)) QC_ins QC dQC_ins
                       (HydraulicDelay_init base (Some T))
          in (dQ_in \<noteq> 0 \<and> T = 0 \<longrightarrow> res = Inl DivisionByZero)
           \<and> (dstate base = None \<and> (dQ_in = 0 \<or> T \<noteq> 0) \<longrightarrow> res = Inl TypeError)
           \<and> (\<forall>d. dstate base = Some d \<and> d \<noteq> [] \<and> C \<noteq> [] \<and> length C_in = length C
                  \<longrightarrow> res = Inl DivisionByZero))"
proof -
  define u where "u = HydraulicDelay_init base (Some T)"
  define res where "res = HydraulicDelay_dy_dt T QC_ins QC dQC_ins u"
  have u: "t_delay u = T" "dstate u = dstate base"
    by (simp_all add: u_def HydraulicDelay_init_def)
  have a: "item_0_last QC_ins = Inr Q_in" "slice_0_init QC_ins = Inr C_in"
    "last_item QC = Inr Q" "butlast QC = C" "item_0_last dQC_ins = Inr dQ_in"
    using ins own dins by (simp_all add: item_0_last_def slice_0_init_def row0_def last_item_def)
  have p1: "res = Inl DivisionByZero" if "dQ_in \<noteq> 0" "T = 0"
    unfolding res_def HydraulicDelay_dy_dt_def a using that
    by (simp add: Let_def fdiv_def)
  have p2: "res = Inl TypeError" if "dstate base = None" "dQ_in = 0 \<or> T \<noteq> 0"
    unfolding res_def HydraulicDelay_dy_dt_def a using that
    by (auto simp: Let_def fdiv_def u(2) set_last_def)
  have p3: "res = Inl DivisionByZero"
    if d: "dstate base = Some d" "d \<noteq> []" and len: "C \<noteq> []" "length C_in = length C" for d
  proof -
    have sl: "set_last (Some d) x = Inr (butlast d @ [x])" for x
      using d(2) by (simp add: set_last_def)
    show ?thesis
    proof (cases "dQ_in = 0")
      case True
      have b: "np_binop (-) (scalar_mul Q_in C_in) (scalar_mul Q C)
               = Inr (map2 (-) (scalar_mul Q_in C_in) (scalar_mul Q C))"
        using len by (simp add: np_binop_def scalar_mul_def)
      have nemp: "map2 (-) (scalar_mul Q_in C_in) (scalar_mul Q C) \<noteq> []"
        using len by (cases C_in; cases C) (simp_all add: scalar_mul_def)
      have "Q * T = 0" using z by auto
      then have c: "np_div (map2 (-) (scalar_mul Q_in C_in) (scalar_mul Q C)) (Q * T)
                    = Inl DivisionByZero"
        using nemp by (simp add: np_div_def)
      show ?thesis
        unfolding res_def HydraulicDelay_dy_dt_def a using True
        by (simp add: Let_def u(2) d(1) sl b c)
    next
      case False
      show ?thesis
      proof (cases "T = 0")
        case True
        then show ?thesis using p1 False by simp
      next
        case F: False
        then have "Q = 0" using z by simp
        then show ?thesis unfolding res_def HydraulicDelay_dy_dt_def a using False F
          by (simp add: Let_def fdiv_def u(2) d(1) sl)
      qed
    qed
  qed
  have r: "HydraulicDelay_compile_ODE (HydraulicDelay_init base (Some T)) QC_ins QC dQC_ins
             (HydraulicDelay_init base (Some T)) = res"
    by (simp add: HydraulicDelay_compile_ODE_def res_def u_def[symmetric] u(1))
  have t: "t_delay (HydraulicDelay_init base None) = 1 / 10000"
          "t_delay (HydraulicDelay_init base (Some T)) = T"
    by (simp_all add: HydraulicDelay_init_def)
  show ?thesis
    unfolding Let_def r using t p1 p2 p3 by blast
qed

theorem HydraulicDelay_division_by_zero_witness:
  "HydraulicDelay_compile_ODE (HydraulicDelay_init pump0 (Some 0)) [[100, 0, 10]] [50, 20, 5] [[0, 0, 1]]
       (HydraulicDelay_init pump0 (Some 0)) = Inl DivisionByZero
   \<and> HydraulicDelay_compile_ODE (HydraulicDelay_init pump0 (Some 0)) [[100, 0, 10]] [50, 20, 5] [[0, 0, 0]]
       (HydraulicDelay_init pump0 (Some 0)) = Inl TypeError
   \<and> HydraulicDelay_compile_ODE (delay0 0) [[100, 0, 10]] [50, 20, 5] [[0, 0, 0]] (delay0 0)
       = Inl DivisionByZero
   \<and> HydraulicDelay_compile_ODE (delay0 2) [[100, 0, 10]] [50, 20, 0] [[0, 0, 1]] (delay0 2)
       = Inl DivisionByZero
   \<and> t_delay (HydraulicDelay_init pump0 None) = 1 / 10000 \<and> t_delay (delay0 (- 3)) = - 3"
proof -
  let ?b = "pump0\<lparr>dstate := Some [0, 0, 0]\<rparr>"
  have n: "dstate pump0 = None" by (simp add: pump0_def)
  have s: "dstate ?b = Some [0, 0, 0]" by simp
  have 1: "HydraulicDelay_compile_ODE (HydraulicDelay_init pump0 (Some 0)) [[100, 0, 10]] [50, 20, 5]
       [[0, 0, 1]] (HydraulicDelay_init pump0 (Some 0)) = Inl DivisionByZero"
    using HydraulicDelay_division_by_zero[of "[[100, 0, 10]]" "[100, 0]" 10 "[]" "[50, 20, 5]" "[50, 20]" 5
        "[[0, 0, 1]]" "[0, 0]" 1 "[]" 0 pump0]
    by (simp add: Let_def)
  have 2: "HydraulicDelay_compile_ODE (HydraulicDelay_init pump0 (Some 0)) [[100, 0, 10]] [50, 20, 5]
       [[0, 0, 0]] (HydraulicDelay_init pump0 (Some 0)) = Inl TypeError"
    using HydraulicDelay_division_by_zero[of "[[100, 0, 10]]" "[100, 0]" 10 "[]" "[50, 20, 5]" "[50, 20]" 5
        "[[0, 0, 0]]" "[0, 0]" 0 "[]" 0 pump0] n
    by (simp add: Let_def)
  have 3: "HydraulicDelay_compile_ODE (delay0 0) [[100, 0, 10]] [50, 20, 5] [[0, 0, 0]] (delay0 0)
     = Inl DivisionByZero"
    using HydraulicDelay_division_by_zero[of "[[100, 0, 10]]" "[100, 0]" 10 "[]" "[50, 20, 5]" "[50, 20]" 5
        "[[0, 0, 0]]" "[0, 0]" 0 "[]" 0 ?b] s
    by (simp add: delay0_def Let_def)
  have 4: "HydraulicDelay_compile_ODE (delay0 2) [[100, 0, 10]] [50, 20, 0] [[0, 0, 1]] (delay0 2)
     = Inl DivisionByZero"
    using HydraulicDelay_division_by_zero[of "[[100, 0, 10]]" "[100, 0]" 10 "[]" "[50, 20, 0]" "[50, 20]" 0
        "[[0, 0, 1]]" "[0, 0]" 1 "[]" 2 ?b] s
    by (simp add: delay0_def Let_def)
  have 5: "t_delay (HydraulicDelay_init pump0 None) = 1 / 10000" "t_delay (delay0 (- 3)) = - 3"
    by (simp_all add: HydraulicDelay_init_def delay0_def)
  from 1 2 3 4 5 show ?thesis by simp
qed

section \<open>Splitter: scale vectors and conservation\<close>

text \<open>
  Claim C2, as stated, at a split-ratio vector in \<open>[0,1]\<^sup>2\<close> whose reference fraction
  (the one of \<open>H2O\<close>) is \<open>0\<close>: \<open>s / s_ref\<close> divides by zero, numpy yields \<open>[inf, nan]\<close> for
  the scale vector, and branch 0 carries \<open>0 * inf = nan\<close>, so the identity fails.
\<close>
theorem Splitter_conservation_counterexample:
  "Splitter_init_state [[3, 4, 10]] (splitter0 [1 / 2, 0]) = Inl DivisionByZero"
  by (simp add: Splitter_init_state_def splitter0_def row0_def item_def np_div_def Let_def)

text \<open>
  Claim C2, amended.  For a Splitter whose registry contains \<open>H2O\<close> at index \<open>i\<close>, with
  split vector \<open>s\<close> and reference fraction \<open>s_ref = s ! i\<close> different from \<open>0\<close> and from \<open>1\<close>
  (in particular \<open>0 < s_ref < 1\<close>), \<open>_init_state\<close> stores the scale vectors
  \<open>append(s / s_ref, s_ref)\<close> and \<open>append((1 - s) / (1 - s_ref), 1 - s_ref)\<close>; then for every
  state vector \<open>arr\<close> of length \<open>n + 1\<close>, \<open>_update_state\<close> stores \<open>arr\<close> and writes two branch
  vectors \<open>b0\<close>, \<open>b1\<close> whose flows add up to the total flow and which satisfy
  \<open>b0_flow * b0_conc + b1_flow * b1_conc = flow * conc\<close> for every component, exactly.
\<close>
theorem Splitter_conservation:
  assumes h2o: "index_of (components u) ''H2O'' = Inr i" and i: "i < length (split u)"
    and ref: "split u ! i \<noteq> 0" "split u ! i \<noteq> 1"
    and QCs: "QCs \<noteq> []"
    and arr: "length arr = Suc (length (split u))"
    and out: "2 \<le> length (outs u)"
  shows "\<exists>u1 u2 b0 b1.
           Splitter_init_state QCs u = Inr u1
         \<and> split_out0_state u1 = Some (map (\<lambda>x. x / split u ! i) (split u) @ [split u ! i])
         \<and> split_out1_state u1
             = Some (map (\<lambda>x. (1 - x) / (1 - split u ! i)) (split u) @ [1 - split u ! i])
         \<and> Splitter_update_state arr u1 = Inr u2
         \<and> state u2 = Some arr
         \<and> s_state (outs u2 ! 0) = Some b0 \<and> s_state (outs u2 ! 1) = Some b1
         \<and> length b0 = length arr \<and> length b1 = length arr
         \<and> b0 ! length (split u) + b1 ! length (split u) = arr ! length (split u)
         \<and> list_all (\<lambda>j. b0 ! length (split u) * b0 ! j + b1 ! length (split u) * b1 ! j
                          = arr ! length (split u) * arr ! j) [0..<length (split u)]"
proof -
  define s where "s = split u"
  define n where "n = length s"
  define sr where "sr = s ! i"
  define v0 where "v0 = map (\<lambda>x. x / sr) s @ [sr]"
  define v1 where "v1 = map (\<lambda>x. (1 - x) / (1 - sr)) s @ [1 - sr]"
  define b0 where "b0 = map2 (*) v0 arr"
  define b1 where "b1 = map2 (*) v1 arr"
  obtain st rest where st: "QCs = st # rest" using QCs by (cases QCs) auto
  define u1 where "u1 = u\<lparr>state := Some st, dstate := Some (map (\<lambda>x. x * 0) st),
            split_out0_state := Some v0, split_out1_state := Some v1\<rparr>"
  define os where "os = ((outs u)[0 := (outs u ! 0)\<lparr>s_state := Some b0\<rparr>])[1 := (outs u ! 1)\<lparr>s_state := Some b1\<rparr>]"
  define u2 where "u2 = u1\<lparr>state := Some arr, outs := os\<rparr>"
  have sr0: "sr \<noteq> 0" "1 - sr \<noteq> 0" using ref by (simp_all add: sr_def s_def)
  have sne: "s \<noteq> []" using i by (auto simp: s_def)
  have "map (\<lambda>x. 1 - x) s \<noteq> []" using sne by simp
  have d1: "np_div s sr = Inr (map (\<lambda>x. x / sr) s)" using sr0 by (simp add: np_div_def)
  have d2: "np_div (map (\<lambda>x. 1 - x) s) (1 - sr) = Inr (map (\<lambda>x. (1 - x) / (1 - sr)) s)"
    using sr0 by (simp add: np_div_def comp_def)
  have init: "Splitter_init_state QCs u = Inr u1"
    unfolding Splitter_init_state_def st
    using i d1 d2
    by (simp add: row0_def h2o item_def Let_def s_def[symmetric] sr_def[symmetric] u1_def v0_def v1_def)
  have lv: "length v0 = length arr" "length v1 = length arr"
    using arr by (simp_all add: v0_def v1_def s_def)
  have sc: "scale (Some v0) arr = Inr b0" "scale (Some v1) arr = Inr b1"
    using lv by (simp_all add: scale_def np_binop_def b0_def b1_def)
  have u1f: "split_out0_state u1 = Some v0" "split_out1_state u1 = Some v1" "outs u1 = outs u"
    by (simp_all add: u1_def)
  have out1: "outs u \<noteq> []" "0 < length (outs u)" "Suc 0 < length (outs u)"
    using out by auto
  have upd: "Splitter_update_state arr u1 = Inr u2"
    unfolding Splitter_update_state_def u1f
    using out1 by (simp add: sc set_out_state_def u2_def os_def)
  have o0: "s_state (outs u2 ! 0) = Some b0" "s_state (outs u2 ! 1) = Some b1"
    using out1 by (simp_all add: u2_def os_def nth_list_update)
  have lb: "length b0 = length arr" "length b1 = length arr"
    using lv by (simp_all add: b0_def b1_def)
  have la: "length arr = Suc n" using arr by (simp add: n_def s_def)
  have bn: "b0 ! n = sr * arr ! n" "b1 ! n = (1 - sr) * arr ! n"
    using la by (simp_all add: b0_def b1_def v0_def v1_def nth_append n_def)
  have bj: "b0 ! j = s ! j / sr * arr ! j" "b1 ! j = (1 - s ! j) / (1 - sr) * arr ! j" if "j < n" for j
    using that la by (simp_all add: b0_def b1_def v0_def v1_def nth_append n_def)
  have flow: "b0 ! n + b1 ! n = arr ! n" by (simp add: bn algebra_simps)
  have mass: "b0 ! n * b0 ! j + b1 ! n * b1 ! j = arr ! n * arr ! j" if "j < n" for j
    using sr0 by (simp add: bn bj[OF that] field_simps)
  have "list_all (\<lambda>j. b0 ! n * b0 ! j + b1 ! n * b1 ! j = arr ! n * arr ! j) [0..<n]"
    using mass by (simp add: list_all_iff)
  then have "Splitter_init_state QCs u = Inr u1
         \<and> split_out0_state u1 = Some v0 \<and> split_out1_state u1 = Some v1
         \<and> Splitter_update_state arr u1 = Inr u2
         \<and> state u2 = Some arr
         \<and> s_state (outs u2 ! 0) = Some b0 \<and> s_state (outs u2 ! 1) = Some b1
         \<and> length b0 = length arr \<and> length b1 = length arr
         \<and> b0 ! n + b1 ! n = arr ! n
         \<and> list_all (\<lambda>j. b0 ! n * b0 ! j + b1 ! n * b1 ! j = arr ! n * arr ! j) [0..<n]"
    using init u1f upd o0 lb flow by (simp add: u2_def)
  then show ?thesis unfolding v0_def v1_def n_def sr_def s_def by blast
qed

theorem Splitter_conservation_witness:
  "\<exists>u1 u2. Splitter_init_state [[3, 4, 10]] (splitter0 [1 / 4, 1 / 2]) = Inr u1
     \<and> split_out0_state u1 = Some [1 / 2, 1, 1 / 2]
     \<and> split_out1_state u1 = Some [3 / 2, 1, 1 / 2]
     \<and> Splitter_update_state [3, 4, 10] u1 = Inr u2
     \<and> s_state (outs u2 ! 0) = Some [3 / 2, 4, 5]
     \<and> s_state (outs u2 ! 1) = Some [9 / 2, 4, 5]"
proof -
  let ?u = "splitter0 [1 / 4, 1 / 2]"
  have f: "split ?u = [1 / 4, 1 / 2]" "components ?u = [''S'', ''H2O'']" "length (outs ?u) = 2"
    by (simp_all add: splitter0_def)
  have h: "index_of (components ?u) ''H2O'' = Inr 1" by (simp add: f)
  obtain u1 u2 b0 b1 where
    r: "Splitter_init_state [[3, 4, 10]] ?u = Inr u1"
       "split_out0_state u1 = Some (map (\<lambda>x. x / split ?u ! 1) (split ?u) @ [split ?u ! 1])"
       "split_out1_state u1 = Some (map (\<lambda>x. (1 - x) / (1 - split ?u ! 1)) (split ?u) @ [1 - split ?u ! 1])"
       "Splitter_update_state [3, 4, 10] u1 = Inr u2"
       "s_state (outs u2 ! 0) = Some b0" "s_state (outs u2 ! 1) = Some b1"
    using Splitter_conservation[OF h, of "[[3, 4, 10]]" "[3, 4, 10]"] unfolding f
    by auto
  have i: "Splitter_init_state [[3, 4, 10]] ?u
     = Inr (?u\<lparr>state := Some [3, 4, 10], dstate := Some [0, 0, 0],
            split_out0_state := Some [1 / 2, 1, 1 / 2], split_out1_state := Some [3 / 2, 1, 1 / 2]\<rparr>)"
    by (simp add: Splitter_init_state_def splitter0_def row0_def item_def np_div_def Let_def)
  then have u1: "u1 = ?u\<lparr>state := Some [3, 4, 10], dstate := Some [0, 0, 0],
            split_out0_state := Some [1 / 2, 1, 1 / 2], split_out1_state := Some [3 / 2, 1, 1 / 2]\<rparr>"
    using r(1) by simp
  have "Splitter_update_state [3, 4, 10] u1
     = Inr (u1\<lparr>state := Some [3, 4, 10],
            outs := [new_stream\<lparr>s_state := Some [3 / 2, 4, 5]\<rparr>, new_stream\<lparr>s_state := Some [9 / 2, 4, 5]\<rparr>]\<rparr>)"
    unfolding u1
    by (simp add: Splitter_update_state_def splitter0_def scale_def np_binop_def set_out_state_def)
  then have "s_state (outs u2 ! 0) = Some [3 / 2, 4, 5]" "s_state (outs u2 ! 1) = Some [9 / 2, 4, 5]"
    using r(4) by auto
  then show ?thesis using r(1,4) u1 by (intro exI[of _ u1] exI[of _ u2]) simp
qed

section \<open>The lifecycle operations\<close>

text \<open>
  Claim C4, as stated, on a Mixer that has been initialised: \<open>reset_cache\<close> leaves the
  Derivative Vector that \<open>_init_state\<close> created, so it is not undefined afterwards.
\<close>
theorem reset_cache_counterexample:
  "\<exists>u. Mixer_init_state [[1, 2, 3]] unit0 = Inr u
       \<and> dstate (reset_cache empty0 u) = Some [0, 0, 0]
       \<and> dstate (reset_cache empty0 u) \<noteq> None"
  by (simp add: Mixer_init_state_def row0_def reset_cache_def unit0_def)

text \<open>
  Claim C4, amended.  For every unit (Mixer, Splitter, Pump, HydraulicDelay share the
  method), \<open>reset_cache\<close> sets the State Vector to undefined and applies the stream
  method \<open>empty\<close> to every output.  It leaves the Derivative Vector and every other
  attribute (the registry, the inputs, the attributes of the subclass such as the
  scale vectors, the delay constant and the concentration override) as they were.
  It cannot fail, whatever the unit holds, so it is safe before any initialisation;
  and when \<open>empty\<close> is idempotent, calling it twice gives the same unit as calling it
  once.
\<close>
theorem reset_cache_spec:
  assumes idem: "\<And>s. empty_stream (empty_stream s) = empty_stream s"
  shows "state (reset_cache empty_stream u) = None
       \<and> outs (reset_cache empty_stream u) = map empty_stream (outs u)
       \<and> dstate (reset_cache empty_stream u) = dstate u
       \<and> components (reset_cache empty_stream u) = components u
       \<and> ins (reset_cache empty_stream u) = ins u
       \<and> san_unit.more (reset_cache empty_stream u) = san_unit.more u
       \<and> reset_cache empty_stream (reset_cache empty_stream u) = reset_cache empty_stream u"
  using idem by (simp add: reset_cache_def)

theorem reset_cache_spec_witness:
  "state (reset_cache empty0 unit0) = None
   \<and> outs (reset_cache empty0 unit0) = [empty0 new_stream]
   \<and> dstate (reset_cache empty0 (unit0\<lparr>dstate := Some [0, 0, 0]\<rparr>)) = Some [0, 0, 0]
   \<and> reset_cache empty0 (reset_cache empty0 unit0) = reset_cache empty0 unit0"
proof -
  have i: "\<And>s. empty0 (empty0 s) = empty0 s" by (simp add: empty0_def)
  show ?thesis
    using reset_cache_spec[of empty0 unit0, OF i]
      reset_cache_spec[of empty0 "unit0\<lparr>dstate := Some [0, 0, 0]\<rparr>", OF i]
    by (simp add: unit0_def)
qed

text \<open>
  Claim C5, as stated, on a Pump with two components (a state vector has length 3):
  \<open>_update_state\<close> accepts a vector of length 1, stores it and writes it to the output;
  no shape error is raised.
\<close>
theorem update_state_counterexample:
  "length (components pump0) + 1 = 3
   \<and> Pump_update_state [1] pump0
       = Inr (pump0\<lparr>state := Some [1], outs := [new_stream\<lparr>s_state := Some [1]\<rparr>]\<rparr>)"
  by (simp add: Pump_update_state_def set_out_state_def pump0_def)

text \<open>
  Claim C5, amended.  The validation is in the setter of the property \<open>state\<close> (Splitter
  and Pump; Mixer has no setter): it fails with the shape error exactly when the
  array's shape is not \<open>(n_components + 1,)\<close>, and otherwise stores the array as it is,
  writing no output buffer.  \<open>_update_state\<close> validates nothing: in Mixer and Pump it
  stores any vector and writes it unchanged to the single output; in Splitter, for a
  vector as long as the two scale vectors, it stores the vector and writes the
  elementwise products with the scale vectors to the two outputs.
\<close>
theorem update_state_spec:
  assumes out: "outs u \<noteq> []"
    and sc: "split_out0_state sp = Some v0" "split_out1_state sp = Some v1"
    and len: "length v0 = length arr" "length v1 = length arr"
    and out2: "2 \<le> length (outs sp)"
  shows "set_state A u
           = (if shape A = [length (components u) + 1] then Inr (u\<lparr>state := Some (entries A)\<rparr>)
              else Inl StateShapeError)
       \<and> Mixer_update_state arr u
           = Inr (u\<lparr>state := Some arr, outs := (outs u)[0 := (outs u ! 0)\<lparr>s_state := Some arr\<rparr>]\<rparr>)
       \<and> Pump_update_state arr u
           = Inr (u\<lparr>state := Some arr, outs := (outs u)[0 := (outs u ! 0)\<lparr>s_state := Some arr\<rparr>]\<rparr>)
       \<and> Splitter_update_state arr sp
           = Inr (sp\<lparr>state := Some arr,
                    outs := (outs sp)[0 := (outs sp ! 0)\<lparr>s_state := Some (map2 (*) v0 arr)\<rparr>,
                                      1 := (outs sp ! 1)\<lparr>s_state := Some (map2 (*) v1 arr)\<rparr>]\<rparr>)"
proof -
  have o: "0 < length (outs sp)" "Suc 0 < length (outs sp)" using out2 by auto
  have "Splitter_update_state arr sp
           = Inr (sp\<lparr>state := Some arr,
                    outs := (outs sp)[0 := (outs sp ! 0)\<lparr>s_state := Some (map2 (*) v0 arr)\<rparr>,
                                      1 := (outs sp ! 1)\<lparr>s_state := Some (map2 (*) v1 arr)\<rparr>]\<rparr>)"
    using o len by (simp add: Splitter_update_state_def sc scale_def np_binop_def set_out_state_def)
  then show ?thesis using out
    by (simp add: set_state_def Mixer_update_state_def Pump_update_state_def set_out_state_def)
qed

theorem update_state_spec_witness:
  "set_state \<lparr>shape = [3], entries = [1, 2, 3]\<rparr> pump0 = Inr (pump0\<lparr>state := Some [1, 2, 3]\<rparr>)
   \<and> set_state \<lparr>shape = [1, 3], entries = [1, 2, 3]\<rparr> pump0 = Inl StateShapeError
   \<and> set_state \<lparr>shape = [2], entries = [1, 2]\<rparr> pump0 = Inl StateShapeError
   \<and> Mixer_update_state [3, 4, 10] pump0
       = Inr (pump0\<lparr>state := Some [3, 4, 10], outs := [new_stream\<lparr>s_state := Some [3, 4, 10]\<rparr>]\<rparr>)
   \<and> Splitter_update_state [3, 4, 10]
        ((splitter0 [1 / 4, 1 / 2])\<lparr>split_out0_state := Some [1 / 2, 1, 1 / 2],
                                    split_out1_state := Some [3 / 2, 1, 1 / 2]\<rparr>)
       = Inr ((splitter0 [1 / 4, 1 / 2])\<lparr>split_out0_state := Some [1 / 2, 1, 1 / 2],
                split_out1_state := Some [3 / 2, 1, 1 / 2], state := Some [3, 4, 10],
                outs := [new_stream\<lparr>s_state := Some [3 / 2, 4, 5]\<rparr>,
                         new_stream\<lparr>s_state := Some [9 / 2, 4, 5]\<rparr>]\<rparr>)"
proof -
  let ?sp = "(splitter0 [1 / 4, 1 / 2])\<lparr>split_out0_state := Some [1 / 2, 1, 1 / 2],
                                    split_out1_state := Some [3 / 2, 1, 1 / 2]\<rparr>"
  have o: "outs pump0 \<noteq> []" by (simp add: pump0_def)
  have s: "split_out0_state ?sp = Some [1 / 2, 1, 1 / 2]" "split_out1_state ?sp = Some [3 / 2, 1, 1 / 2]"
    "length [1 / 2, 1, 1 / 2::real] = length [3, 4, 10::real]"
    "length [3 / 2, 1, 1 / 2::real] = length [3, 4, 10::real]" "2 \<le> length (outs ?sp)"
    by (simp_all add: splitter0_def)
  note t = update_state_spec[OF o s]
  show ?thesis
    using t[of "\<lparr>shape = [3], entries = [1, 2, 3]\<rparr>"]
      t[of "\<lparr>shape = [1, 3], entries = [1, 2, 3]\<rparr>"]
      t[of "\<lparr>shape = [2], entries = [1, 2]\<rparr>"]
    by (simp add: pump0_def splitter0_def)
qed

text \<open>
  Claim C6, at a HydraulicDelay that has no Derivative Vector yet: \<open>_init_state\<close> sets
  the state to the input's state (with the concentrations replaced by the override
  when one is set) and leaves the Derivative Vector undefined, where the inherited
  \<open>Pump._init_state\<close> creates a zero vector.  The ODE of the node then fails on its
  first assignment into the Derivative Vector.
\<close>
theorem HydraulicDelay_init_state_no_dstate:
  "\<exists>u. HydraulicDelay_init_state [[1, 2, 3]] (HydraulicDelay_init pump0 None) = Inr u
       \<and> state u = Some [1, 2, 3] \<and> dstate u = None
       \<and> HydraulicDelay_compile_ODE u [[1, 2, 3]] [1, 2, 3] [[0, 0, 0]] u = Inl TypeError
       \<and> (\<exists>p. Pump_init_state [[1, 2, 3]] pump0 = Inr p \<and> dstate p = Some [0, 0, 0])
       \<and> (\<exists>v. HydraulicDelay_init_state [[1, 2, 3]]
                 ((HydraulicDelay_init pump0 None)\<lparr>concs := Some [7, 8]\<rparr>) = Inr v
              \<and> state v = Some [7, 8, 3] \<and> dstate v = None)"
  by (simp add: HydraulicDelay_init_state_def HydraulicDelay_init_def pump0_def row0_def
      HydraulicDelay_compile_ODE_def HydraulicDelay_dy_dt_def item_0_last_def last_item_def
      slice_0_init_def set_last_def set_init_def Pump_init_state_def Let_def)

text \<open>
  Claim C7, at a ComponentSplitter built with two split keys (three outputs): the
  setter compares the new size with the number of outputs, so a replacement of the
  same size 2 is rejected and one of size 3 is accepted.  An empty collection is
  rejected at construction.
\<close>
theorem set_split_keys_same_size_rejected:
  "\<exists>u. ComponentSplitter_init [''A'', ''B'', ''C'', ''D''] [] (Keys [Str ''A'', Str ''B'']) = Inr u
       \<and> length (outs u) = 3
       \<and> set_split_keys (Keys [Str ''C'', Str ''D'']) u = Inl SplitKeysSizeChanged
       \<and> set_split_keys (Keys [Str ''A'', Str ''B'', Str ''C'']) u
           = Inr (u\<lparr>split_keys_attr := Keys [Str ''A'', Str ''B'', Str ''C'']\<rparr>)
       \<and> ComponentSplitter_init [''A'', ''B'', ''C'', ''D''] [] (Keys []) = Inl EmptySplitKeys"
  by (simp add: ComponentSplitter_init_def set_split_keys_def Let_def numeral_3_eq_3)

section \<open>ComponentSplitter: duplicated split keys\<close>

lemma length_set_imass [simp]: "length (set_imass i c m os) = length os"
  by (simp add: set_imass_def)

lemma last_after_move:
  assumes "num < length os"
  shows "imass (last (set_imass (length (set_imass num c (imass (last os) c) os) - 1) c 0
                        (set_imass num c (imass (last os) c) os)))
         = (imass (last os))(c := 0)"
proof -
  define L where "L = length os - 1"
  have ne: "os \<noteq> []" and L: "L < length os" using assms by (auto simp: L_def)
  define os1 where "os1 = set_imass num c (imass (last os) c) os"
  define os2 where "os2 = set_imass (length os1 - 1) c 0 os1"
  have l1: "length os1 = length os" by (simp add: os1_def)
  have "(imass (os1 ! L))(c := 0) = (imass (os ! L))(c := 0)"
    using L assms by (cases "num = L") (simp_all add: os1_def set_imass_def)
  then have "imass (os2 ! L) = (imass (os ! L))(c := 0)"
    using L l1 by (simp add: os2_def set_imass_def L_def)
  moreover have l2: "length os2 = length os" by (simp add: os2_def os1_def)
  moreover have ne2: "os2 \<noteq> []" using ne l2 by auto
  moreover have "last os2 = os2 ! L" "last os = os ! L"
    using last_conv_nth[OF ne2] last_conv_nth[OF ne] l2 by (simp_all add: L_def)
  ultimately show ?thesis by (simp add: os2_def os1_def)
qed

lemma move_cmps_result:
  assumes "\<forall>c\<in>set cmps. c \<in> set registry" and "num < length os"
  shows "\<exists>r os' sp'. move_cmps registry num cmps os splitted = (r, os', sp')
           \<and> length os' = length os
           \<and> (if distinct cmps \<and> set cmps \<inter> set splitted = {}
               then r = None \<and> sp' = splitted @ cmps
               else r = Some DuplicateComponent)
           \<and> imass (last os')
               = (\<lambda>x. if x \<in> set (processed splitted cmps) then 0 else imass (last os) x)"
  using assms
proof (induction cmps arbitrary: os splitted)
  case Nil
  then show ?case by simp
next
  case (Cons c cmps)
  define os2 where "os2 = set_imass (length (set_imass num c (imass (last os) c) os) - 1) c 0
                            (set_imass num c (imass (last os) c) os)"
  have reg: "c \<in> set registry" using Cons.prems(1) by simp
  have l2: "length os2 = length os" by (simp add: os2_def)
  have la: "imass (last os2) = (imass (last os))(c := 0)"
    unfolding os2_def by (rule last_after_move[OF Cons.prems(2)])
  show ?case
  proof (cases "c \<in> set splitted")
    case True
    have "move_cmps registry num (c # cmps) os splitted = (Some DuplicateComponent, os2, splitted)"
      using reg Cons.prems(2) True by (simp add: Let_def os2_def)
    moreover have "imass (last os2)
         = (\<lambda>x. if x \<in> set (processed splitted (c # cmps)) then 0 else imass (last os) x)"
      using True by (auto simp: la)
    ultimately show ?thesis using True l2 by auto
  next
    case False
    from Cons.prems have p: "\<forall>c\<in>set cmps. c \<in> set registry" "num < length os2"
      by (simp_all add: l2)
    from Cons.IH[OF p, of "splitted @ [c]"] obtain r os' sp' where
      ih: "move_cmps registry num cmps os2 (splitted @ [c]) = (r, os', sp')"
          "length os' = length os2"
          "if distinct cmps \<and> set cmps \<inter> set (splitted @ [c]) = {}
           then r = None \<and> sp' = (splitted @ [c]) @ cmps else r = Some DuplicateComponent"
          "imass (last os')
             = (\<lambda>x. if x \<in> set (processed (splitted @ [c]) cmps) then 0 else imass (last os2) x)"
      by blast
    have eq: "move_cmps registry num (c # cmps) os splitted = (r, os', sp')"
      using reg Cons.prems(2) False ih(1)
      by (simp add: Let_def os2_def)
    have c1: "(distinct (c # cmps) \<and> set (c # cmps) \<inter> set splitted = {})
              = (distinct cmps \<and> set cmps \<inter> set (splitted @ [c]) = {})"
      using False by auto
    have c2: "imass (last os')
         = (\<lambda>x. if x \<in> set (processed splitted (c # cmps)) then 0 else imass (last os) x)"
      using False by (auto simp: ih(4) la)
    show ?thesis using eq ih(2,3) l2 c2 unfolding c1 by (auto split: if_splits)
  qed
qed

lemma processed_append:
  "processed seen (g @ rest)
   = (if distinct g \<and> set g \<inter> set seen = {} then g @ processed (seen @ g) rest
      else processed seen g)"
proof (induction g arbitrary: seen)
  case Nil
  then show ?case by simp
next
  case (Cons c g)
  show ?case
  proof (cases "c \<in> set seen")
    case True
    then show ?thesis by simp
  next
    case False
    have c1: "(distinct (c # g) \<and> set (c # g) \<inter> set seen = {})
              = (distinct g \<and> set g \<inter> set (seen @ [c]) = {})"
      using False by auto
    show ?thesis using False Cons.IH[of "seen @ [c]"] unfolding c1 by simp
  qed
qed

lemma run_keys_result:
  assumes "list_all (\<lambda>k. k \<noteq> NotIterable) ks"
    and "\<forall>c\<in>set (concat (map ids_of ks)). c \<in> set registry"
    and "num + length ks \<le> length os"
  shows "fst (run_keys registry num ks os splitted)
         = (if distinct (concat (map ids_of ks)) \<and> set (concat (map ids_of ks)) \<inter> set splitted = {}
            then None else Some DuplicateComponent)
       \<and> length (snd (run_keys registry num ks os splitted)) = length os
       \<and> imass (last (snd (run_keys registry num ks os splitted)))
           = (\<lambda>x. if x \<in> set (processed splitted (concat (map ids_of ks))) then 0
                   else imass (last os) x)"
  using assms
proof (induction ks arbitrary: num os splitted)
  case Nil
  then show ?case by simp
next
  case (Cons k ks)
  define g where "g = ids_of k"
  define rest where "rest = concat (map ids_of ks)"
  have kn: "k \<noteq> NotIterable" using Cons.prems(1) by simp
  have reg: "\<forall>c\<in>set g. c \<in> set registry" using Cons.prems(2) by (simp add: g_def)
  have num: "num < length os" using Cons.prems(3) by simp
  have cc: "concat (map ids_of (k # ks)) = g @ rest" by (simp add: g_def rest_def)
  obtain r os' sp' where
    m: "move_cmps registry num g os splitted = (r, os', sp')" "length os' = length os"
       "if distinct g \<and> set g \<inter> set splitted = {} then r = None \<and> sp' = splitted @ g
        else r = Some DuplicateComponent"
       "imass (last os') = (\<lambda>x. if x \<in> set (processed splitted g) then 0 else imass (last os) x)"
    using move_cmps_result[OF reg num, of splitted] by blast
  have step: "run_keys registry num (k # ks) os splitted
        = (case r of Some e \<Rightarrow> (Some e, os') | None \<Rightarrow> run_keys registry (Suc num) ks os' sp')"
    using kn m(1) by (cases k) (simp_all add: g_def split: option.splits)
  show ?case
  proof (cases "distinct g \<and> set g \<inter> set splitted = {}")
    case True
    then have r: "r = None" "sp' = splitted @ g" using m(3) by simp_all
    have p: "list_all (\<lambda>k. k \<noteq> NotIterable) ks"
         "\<forall>c\<in>set (concat (map ids_of ks)). c \<in> set registry"
         "Suc num + length ks \<le> length os'"
      using Cons.prems m(2) by simp_all
    note ih = Cons.IH[OF p, of "splitted @ g", folded rest_def]
    have s: "run_keys registry num (k # ks) os splitted
             = run_keys registry (Suc num) ks os' (splitted @ g)"
      by (simp add: step r)
    have pg: "processed splitted g = g" using True processed_append[of splitted g "[]"] by simp
    have pa: "processed splitted (g @ rest) = g @ processed (splitted @ g) rest"
      using True by (simp add: processed_append)
    have a: "(distinct (g @ rest) \<and> set (g @ rest) \<inter> set splitted = {})
             = (distinct rest \<and> set rest \<inter> set (splitted @ g) = {})"
      using True by auto
    have b: "imass (last (snd (run_keys registry (Suc num) ks os' (splitted @ g))))
             = (\<lambda>x. if x \<in> set (processed splitted (g @ rest)) then 0 else imass (last os) x)"
      using ih by (auto simp: pa m(4) pg)
    show ?thesis unfolding s cc a using ih b m(2) by (simp add: cc[symmetric])
  next
    case False
    then have r: "r = Some DuplicateComponent" using m(3) by simp
    have s: "run_keys registry num (k # ks) os splitted = (Some DuplicateComponent, os')"
      by (simp add: step r)
    have a: "\<not> (distinct (g @ rest) \<and> set (g @ rest) \<inter> set splitted = {})"
      using False by auto
    have pa: "processed splitted (g @ rest) = processed splitted g"
      using False by (auto simp: processed_append)
    show ?thesis unfolding s cc using a m(2,4) by (simp add: pa)
  qed
qed

text \<open>
  Claim C3, as stated, at the spec's example: split keys \<open>[("A",), ("A", "B")]\<close> and an
  inflow of \<open>A: 10\<close>, \<open>B: 5\<close>, \<open>C: 3\<close>.  The constructor accepts the keys; the error is
  raised by \<open>_run\<close>, and when it is raised the outputs, all empty before, have been
  written: output 0 holds \<open>A: 10\<close> and the last output holds the mixed \<open>B: 5\<close>.
\<close>
theorem ComponentSplitter_duplicate_counterexample:
  "\<exists>u. ComponentSplitter_init [''A'', ''B'', ''C''] [stream_of [(''A'', 10), (''B'', 5), (''C'', 3)]]
          (Keys [Group [''A''], Group [''A'', ''B'']]) = Inr u
       \<and> list_all (\<lambda>s. imass s ''A'' = 0 \<and> imass s ''B'' = 0) (outs u)
       \<and> fst (ComponentSplitter_run u) = Some DuplicateComponent
       \<and> imass (outs (snd (ComponentSplitter_run u)) ! 0) ''A'' = 10
       \<and> imass (outs (snd (ComponentSplitter_run u)) ! 2) ''B'' = 5"
  by (simp add: ComponentSplitter_init_def ComponentSplitter_run_def Let_def numeral_3_eq_3
      new_stream_def mix_from_def stream_of_def set_imass_def numeral_2_eq_2)

text \<open>
  Claim C3, amended.  For every ComponentSplitter built (with the default outputs)
  from a non-empty collection of split keys, each a string or an iterable of
  registered component IDs, in which some component ID occurs more than once:
  construction succeeds, with all outputs empty, and running the unit raises the
  duplication error.  The outputs are not restored: when the error is raised the
  last output holds the mixed flow of the inputs for every component except those
  handled up to and including the repeated one, whose flow there is zero.
\<close>
theorem ComponentSplitter_duplicate:
  assumes ne: "ks \<noteq> []"
    and it: "list_all (\<lambda>k. k \<noteq> NotIterable) ks"
    and reg: "list_all (List.member cmps) (concat (map ids_of ks))"
    and dup: "\<not> distinct (concat (map ids_of ks))"
  shows "\<exists>u. ComponentSplitter_init cmps ins_arg (Keys ks) = Inr u
           \<and> list_all (\<lambda>s. imass s = (\<lambda>c. 0)) (outs u)
           \<and> fst (ComponentSplitter_run u) = Some DuplicateComponent
           \<and> length (outs (snd (ComponentSplitter_run u))) = length ks + 1
           \<and> imass (last (outs (snd (ComponentSplitter_run u))))
               = (\<lambda>c. if c \<in> set (processed [] (concat (map ids_of ks))) then 0
                       else sum_list (map (\<lambda>t. imass t c) ins_arg))"
proof -
  define u where "u = \<lparr>components = cmps, ins = ins_arg, outs = replicate (length ks + 1) new_stream,
             state = None, dstate = None, N_outs = length ks + 1, split_keys_attr = Keys ks\<rparr>"
  have init: "ComponentSplitter_init cmps ins_arg (Keys ks) = Inr u"
    using ne by (simp add: ComponentSplitter_init_def u_def)
  define os0 where "os0 = (outs u)[length (outs u) - 1 := mix_from (last (outs u)) (ins u)]"
  have lo: "length (outs u) = length ks + 1" by (simp add: u_def)
  have f: "outs u \<noteq> []" "components u = cmps" "items (split_keys_attr u) = ks" "ins u = ins_arg"
    using lo by (auto simp: u_def)
  have l0: "length os0 = length ks + 1" unfolding os0_def length_list_update lo by simp
  have l: "0 + length ks \<le> length os0" using l0 by simp
  have ne0: "os0 \<noteq> []" using l0 by auto
  have "last os0 = os0 ! (length (outs u) - 1)"
    using last_conv_nth[OF ne0] l0 lo by simp
  then have last0: "imass (last os0) = (\<lambda>c. sum_list (map (\<lambda>t. imass t c) ins_arg))"
    using lo by (simp add: os0_def mix_from_def f)
  have r: "\<forall>c\<in>set (concat (map ids_of ks)). c \<in> set cmps"
    using reg by (simp add: list_all_iff)
  note rk = run_keys_result[OF it r l, of "[]"]
  have run: "ComponentSplitter_run u
             = (fst (run_keys cmps 0 ks os0 []), u\<lparr>outs := snd (run_keys cmps 0 ks os0 [])\<rparr>)"
    unfolding ComponentSplitter_run_def os0_def
    by (auto simp: f Let_def split: prod.splits)
  have e: "list_all (\<lambda>s. imass s = (\<lambda>c. 0)) (outs u)"
    by (simp add: u_def list_all_iff new_stream_def)
  have last1: "imass (last os0) c = sum_list (map (\<lambda>t. imass t c) ins_arg)" for c
    by (simp add: last0)
  show ?thesis
    using init e rk dup by (simp add: run l0 last1 cong: if_cong)
qed

theorem ComponentSplitter_duplicate_witness:
  "\<exists>u. ComponentSplitter_init [''A'', ''B'', ''C''] [stream_of [(''A'', 10), (''B'', 5), (''C'', 3)]]
          (Keys [Group [''A''], Group [''A'', ''B'']]) = Inr u
       \<and> fst (ComponentSplitter_run u) = Some DuplicateComponent
       \<and> imass (last (outs (snd (ComponentSplitter_run u)))) ''A'' = 0
       \<and> imass (last (outs (snd (ComponentSplitter_run u)))) ''B'' = 5
       \<and> imass (last (outs (snd (ComponentSplitter_run u)))) ''C'' = 3"
proof -
  obtain u where u:
    "ComponentSplitter_init [''A'', ''B'', ''C''] [stream_of [(''A'', 10), (''B'', 5), (''C'', 3)]]
          (Keys [Group [''A''], Group [''A'', ''B'']]) = Inr u"
    "fst (ComponentSplitter_run u) = Some DuplicateComponent"
    "imass (last (outs (snd (ComponentSplitter_run u))))
       = (\<lambda>c. if c \<in> set (processed [] (concat (map ids_of [Group [''A''], Group [''A'', ''B'']]))) then 0
               else sum_list (map (\<lambda>t. imass t c) [stream_of [(''A'', 10), (''B'', 5), (''C'', 3)]]))"
    using ComponentSplitter_duplicate[of "[Group [''A''], Group [''A'', ''B'']]" "[''A'', ''B'', ''C'']"
      "[stream_of [(''A'', 10), (''B'', 5), (''C'', 3)]]"]
    by auto
  show ?thesis
    using u(1,2) by (intro exI[of _ u]) (simp add: u(3) stream_of_def)
qed

end
